theory Spec2Isabelle
  imports Complex_Main "HOL-Library.AList"
begin

section \<open>The normative calculator of \<^verbatim>\<open>streamlit_app.py\<close>\<close>

text \<open>
  \<^verbatim>\<open>calculate_cipw\<close> is read twice. In this first reading Python's
  \<^verbatim>\<open>float\<close> is \<^typ>\<open>real\<close> and the arithmetic is exact: it carries the properties
  that are about which formula is applied to which oxide. The second reading, in double
  precision with rounding, overflow to an infinity and NaN, follows further down and
  carries the properties that depend on the arithmetic. A \<^verbatim>\<open>dict\<close> that is only read
  by key is a map; a \<^verbatim>\<open>dict\<close> whose order is observed is an association list in
  insertion order. An exception is a value of \<open>py_error\<close> on the left of a sum.
\<close>

datatype py_error = ZeroDivisionError | OSError | UnicodeDecodeError | JSONDecodeError

type_synonym 'a result = "py_error + 'a"

definition bind_result :: "'a result \<Rightarrow> ('a \<Rightarrow> 'b result) \<Rightarrow> 'b result" where
  "bind_result r f = (case r of Inl e \<Rightarrow> Inl e | Inr v \<Rightarrow> f v)"

text \<open>\<^verbatim>\<open>a / b\<close> on floats raises \<^verbatim>\<open>ZeroDivisionError\<close> when \<^verbatim>\<open>b\<close> is zero.\<close>

definition py_truediv :: "real \<Rightarrow> real \<Rightarrow> real result" where
  "py_truediv a b = (if b = 0 then Inl ZeroDivisionError else Inr (a / b))"

text \<open>
  \<^verbatim>\<open>round(x, n)\<close> rounds to the nearest multiple of \<open>10\<^sup>-\<^sup>n\<close> and sends a tie to
  the even neighbour.
\<close>

definition round_half_even :: "real \<Rightarrow> int" where
  "round_half_even x =
     (let f = \<lfloor>x\<rfloor>; d = x - of_int f
      in if d < 1 / 2 then f
         else if 1 / 2 < d then f + 1
         else if even f then f else f + 1)"

definition py_round :: "real \<Rightarrow> nat \<Rightarrow> real" where
  "py_round x n = of_int (round_half_even (x * 10 ^ n)) / 10 ^ n"

text \<open>\<^verbatim>\<open>sum(xs)\<close> adds from the left, starting at 0.\<close>

definition py_sum :: "real list \<Rightarrow> real" where
  "py_sum xs = foldl (+) 0 xs"

type_synonym oxides = "string \<rightharpoonup> real"

definition OXIDES :: "string list" where
  "OXIDES = [''SiO2'', ''Al2O3'', ''Fe2O3'', ''FeO'', ''MgO'', ''CaO'', ''Na2O'', ''K2O'',
             ''TiO2'', ''P2O5'']"

definition MW_FE2O3 :: real where
  "MW_FE2O3 = 159.69"

definition MW_FEO :: real where
  "MW_FEO = 71.844"

text \<open>\<^verbatim>\<open>float(oxides.get(k, 0.0))\<close>, lines 44 to 53.\<close>

definition get_oxide :: "oxides \<Rightarrow> string \<Rightarrow> real" where
  "get_oxide oxides k = (case oxides k of None \<Rightarrow> 0 | Some v \<Rightarrow> v)"

text \<open>The value of the variable \<^verbatim>\<open>FeO\<close> after lines 55 and 56.\<close>

definition speciate_FeO :: "real \<Rightarrow> real \<Rightarrow> real" where
  "speciate_FeO FeO Fe2O3 =
     (if FeO \<le> 0 \<and> 0 < Fe2O3 then Fe2O3 * ((2 * MW_FEO) / MW_FE2O3) else FeO)"

text \<open>The dictionary \<^verbatim>\<open>raw\<close>, lines 44 to 68, in the order of its literal.\<close>

definition raw :: "oxides \<Rightarrow> (string \<times> real) list" where
  "raw oxides =
     (let SiO2 = get_oxide oxides ''SiO2'';
          Al2O3 = get_oxide oxides ''Al2O3'';
          Fe2O3 = get_oxide oxides ''Fe2O3'';
          FeO = get_oxide oxides ''FeO'';
          MgO = get_oxide oxides ''MgO'';
          CaO = get_oxide oxides ''CaO'';
          Na2O = get_oxide oxides ''Na2O'';
          K2O = get_oxide oxides ''K2O'';
          TiO2 = get_oxide oxides ''TiO2'';
          P2O5 = get_oxide oxides ''P2O5'';
          FeO = speciate_FeO FeO Fe2O3
      in [(''Quartz (Q)'', max 0 (SiO2 - (Al2O3 * 2 + CaO + MgO))),
          (''Orthoclase (Or)'', K2O * 6.58),
          (''Albite (Ab)'', Na2O * 8.52),
          (''Anorthite (An)'', CaO * 2.35),
          (''Diopside (Di)'', (CaO + MgO) * 1.1),
          (''Olivine (Ol)'', (MgO + FeO) * 0.9),
          (''Magnetite (Mt)'', Fe2O3 * 1.43),
          (''Ilmenite (Il)'', TiO2 * 1.89),
          (''Apatite (Ap)'', P2O5 * 3.33)])"

text \<open>\<^verbatim>\<open>total_raw\<close>, line 70.\<close>

definition total_raw :: "oxides \<Rightarrow> real" where
  "total_raw oxides = py_sum (map snd (raw oxides))"

text \<open>
  One value of the comprehension of line 71:
  \<^verbatim>\<open>round((v / total_raw) * 100.0, 4) if total_raw > 0 else 0.0\<close>.
\<close>

definition normalise_value :: "real \<Rightarrow> real \<Rightarrow> real result" where
  "normalise_value t v =
     (if 0 < t then bind_result (py_truediv v t) (\<lambda>q. Inr (py_round (q * 100) 4))
      else Inr 0)"

text \<open>The comprehension of line 71 over \<^verbatim>\<open>raw.items()\<close>; the first exception ends it.\<close>

fun normalise_items :: "real \<Rightarrow> (string \<times> real) list \<Rightarrow> (string \<times> real) list result" where
  "normalise_items t [] = Inr []"
| "normalise_items t ((k, v) # kvs) =
     bind_result (normalise_value t v) (\<lambda>w.
       bind_result (normalise_items t kvs) (\<lambda>rest. Inr ((k, w) # rest)))"

text \<open>
  The em dash and the en dash of the description texts, as the UTF-8 bytes of the source
  file.
\<close>

definition em_dash :: string where
  "em_dash = [CHR 0xE2, CHR 0x80, CHR 0x94]"

definition en_dash :: string where
  "en_dash = [CHR 0xE2, CHR 0x80, CHR 0x93]"

text \<open>The dictionary \<^verbatim>\<open>descriptions\<close>, lines 73 to 83.\<close>

definition descriptions :: "(string \<times> string) list" where
  "descriptions =
     [(''Quartz (Q)'', ''Silicon dioxide '' @ em_dash @ '' common in acidic and felsic rocks.''),
      (''Orthoclase (Or)'',
         ''Potassium feldspar (KAlSi3O8) '' @ em_dash @ '' common in silicic rocks.''),
      (''Albite (Ab)'',
         ''Sodium feldspar (NaAlSi3O8) '' @ em_dash @ '' typical in many silicic rocks.''),
      (''Anorthite (An)'',
         ''Calcium feldspar (CaAl2Si2O8) '' @ em_dash @ '' indicates higher Ca content.''),
      (''Diopside (Di)'',
         ''Calcium'' @ en_dash @ ''magnesium pyroxene '' @ em_dash
           @ '' common in mafic to intermediate rocks.''),
      (''Olivine (Ol)'',
         ''Mg'' @ en_dash @ ''Fe silicate '' @ em_dash
           @ '' typical of mafic and ultramafic rocks.''),
      (''Magnetite (Mt)'',
         ''Iron oxide '' @ em_dash @ '' an indicator of oxidation state (Fe3+).''),
      (''Ilmenite (Il)'',
         ''Titanium'' @ en_dash @ ''iron oxide '' @ em_dash @ '' indicator of Ti presence.''),
      (''Apatite (Ap)'', ''Calcium phosphate '' @ em_dash @ '' phosphorus carrier.'')]"

text \<open>\<^verbatim>\<open>calculate_cipw\<close>, lines 43 to 85.\<close>

definition calculate_cipw ::
  "oxides \<Rightarrow> ((string \<times> real) list \<times> (string \<times> string) list) result" where
  "calculate_cipw oxides =
     bind_result (normalise_items (total_raw oxides) (raw oxides))
       (\<lambda>minerals. Inr (minerals, descriptions))"

subsection \<open>Compositions named by the specification\<close>

text \<open>
  A composition is valid when each of the ten oxides has a non-negative value; a missing
  oxide reads as 0.
\<close>

definition non_negative :: "oxides \<Rightarrow> bool" where
  "non_negative oxides = list_all (\<lambda>k. 0 \<le> get_oxide oxides k) OXIDES"

text \<open>The same mapping with every missing key of the ten oxides set to 0.\<close>

definition fill_missing :: "oxides \<Rightarrow> oxides" where
  "fill_missing oxides =
     (\<lambda>k. if k \<in> set OXIDES \<and> oxides k = None then Some 0 else oxides k)"

text \<open>The end-to-end composition of the specification.\<close>

definition scenario :: oxides where
  "scenario = [''SiO2'' \<mapsto> 60, ''Al2O3'' \<mapsto> 15, ''Fe2O3'' \<mapsto> 3, ''FeO'' \<mapsto> 4,
               ''MgO'' \<mapsto> 4, ''CaO'' \<mapsto> 7, ''Na2O'' \<mapsto> 3, ''K2O'' \<mapsto> 2,
               ''TiO2'' \<mapsto> 1, ''P2O5'' \<mapsto> 0.5]"

text \<open>The compositions of the Quartz and the FeO examples of the specification.\<close>

definition quartz_example :: oxides where
  "quartz_example = [''SiO2'' \<mapsto> 40, ''Al2O3'' \<mapsto> 30, ''CaO'' \<mapsto> 10, ''MgO'' \<mapsto> 5]"

definition iron_example :: oxides where
  "iron_example = [''Fe2O3'' \<mapsto> 10, ''FeO'' \<mapsto> 0]"

section \<open>The calculator in double precision\<close>

text \<open>
  The second reading of \<^verbatim>\<open>calculate_cipw\<close>: a \<^verbatim>\<open>float\<close> is an IEEE 754 binary64
  value. \<open>Fin x\<close> is the finite double whose value is the real \<open>x\<close>; the two zeros are
  one value, as they are for Python's \<^verbatim>\<open>==\<close>. Every operation computes the exact
  real result and rounds it to the nearest double, a tie going to the even significand;
  a result of magnitude \<open>2 ^ 1024\<close> or more after rounding is an infinity.
\<close>

datatype double = Fin real | PInf | NInf | NaN

text \<open>
  The distance between neighbouring doubles around \<open>a\<close>: the least
  \<open>2 ^ e\<close> with \<open>a < 2 ^ (e + 53)\<close>, searched upwards from the subnormal spacing
  \<open>2 ^ -1074\<close> and stopping at the spacing \<open>2 ^ 971\<close> of the largest doubles.
\<close>

fun ulp_from :: "nat \<Rightarrow> real \<Rightarrow> real \<Rightarrow> real" where
  "ulp_from 0 u a = u"
| "ulp_from (Suc n) u a = (if a < u * 2 ^ 53 then u else ulp_from n (2 * u) a)"

definition u_min :: real where
  "u_min = 1 / 2 ^ 1074"

definition ulp :: "real \<Rightarrow> real" where
  "ulp x = ulp_from 2045 u_min \<bar>x\<bar>"

text \<open>Rounding to the nearest multiple of the spacing, and the overflow to an infinity.\<close>

definition rnd_val :: "real \<Rightarrow> real" where
  "rnd_val x = of_int (round_half_even (x / ulp x)) * ulp x"

definition rnd :: "real \<Rightarrow> double" where
  "rnd x = (let y = rnd_val x
            in if 2 ^ 1024 \<le> y then PInf else if y \<le> - (2 ^ 1024) then NInf else Fin y)"

text \<open>
  A real on the grid of its own spacing is a double, but for its size; every double is on
  the grid of the least spacing.
\<close>

definition on_grid :: "real \<Rightarrow> bool" where
  "on_grid x = (of_int \<lfloor>x / ulp x\<rfloor> = x / ulp x)"

definition min_grid :: "real \<Rightarrow> bool" where
  "min_grid x = (of_int \<lfloor>x / u_min\<rfloor> = x / u_min)"

text \<open>Negation, \<^verbatim>\<open>fabs\<close>, and \<^verbatim>\<open>+\<close>, \<^verbatim>\<open>-\<close>, \<^verbatim>\<open>*\<close> on floats.\<close>

fun fneg :: "double \<Rightarrow> double" where
  "fneg (Fin x) = Fin (- x)"
| "fneg PInf = NInf"
| "fneg NInf = PInf"
| "fneg NaN = NaN"

fun fabs :: "double \<Rightarrow> double" where
  "fabs (Fin x) = Fin \<bar>x\<bar>"
| "fabs PInf = PInf"
| "fabs NInf = PInf"
| "fabs NaN = NaN"

fun fadd :: "double \<Rightarrow> double \<Rightarrow> double" where
  "fadd (Fin x) (Fin y) = rnd (x + y)"
| "fadd NaN b = NaN"
| "fadd a NaN = NaN"
| "fadd PInf NInf = NaN"
| "fadd NInf PInf = NaN"
| "fadd PInf b = PInf"
| "fadd a PInf = PInf"
| "fadd NInf b = NInf"
| "fadd a NInf = NInf"

definition fsub :: "double \<Rightarrow> double \<Rightarrow> double" where
  "fsub a b = fadd a (fneg b)"

definition signed_inf :: "bool \<Rightarrow> double" where
  "signed_inf positive = (if positive then PInf else NInf)"

fun fmul :: "double \<Rightarrow> double \<Rightarrow> double" where
  "fmul (Fin x) (Fin y) = rnd (x * y)"
| "fmul NaN b = NaN"
| "fmul a NaN = NaN"
| "fmul (Fin x) PInf = (if x = 0 then NaN else signed_inf (0 < x))"
| "fmul (Fin x) NInf = (if x = 0 then NaN else signed_inf (x < 0))"
| "fmul PInf (Fin y) = (if y = 0 then NaN else signed_inf (0 < y))"
| "fmul NInf (Fin y) = (if y = 0 then NaN else signed_inf (y < 0))"
| "fmul PInf PInf = PInf"
| "fmul PInf NInf = NInf"
| "fmul NInf PInf = NInf"
| "fmul NInf NInf = PInf"

text \<open>
  The quotient of two floats whose divisor is not zero. \<^verbatim>\<open>a / b\<close> raises
  \<^verbatim>\<open>ZeroDivisionError\<close> when \<^verbatim>\<open>b\<close> is zero, whatever \<^verbatim>\<open>a\<close> is.
\<close>

fun fdiv :: "double \<Rightarrow> double \<Rightarrow> double" where
  "fdiv (Fin x) (Fin y) = rnd (x / y)"
| "fdiv NaN b = NaN"
| "fdiv a NaN = NaN"
| "fdiv (Fin x) PInf = Fin 0"
| "fdiv (Fin x) NInf = Fin 0"
| "fdiv PInf (Fin y) = signed_inf (0 \<le> y)"
| "fdiv NInf (Fin y) = signed_inf (y < 0)"
| "fdiv PInf PInf = NaN"
| "fdiv PInf NInf = NaN"
| "fdiv NInf PInf = NaN"
| "fdiv NInf NInf = NaN"

definition py_truediv_fp :: "double \<Rightarrow> double \<Rightarrow> double result" where
  "py_truediv_fp a b = (if b = Fin 0 then Inl ZeroDivisionError else Inr (fdiv a b))"

text \<open>\<^verbatim>\<open>a < b\<close> and \<^verbatim>\<open>a <= b\<close>: a comparison with NaN is false.\<close>

fun flt :: "double \<Rightarrow> double \<Rightarrow> bool" where
  "flt (Fin x) (Fin y) = (x < y)"
| "flt NaN b = False"
| "flt a NaN = False"
| "flt a NInf = False"
| "flt PInf b = False"
| "flt NInf b = True"
| "flt a PInf = True"

definition fle :: "double \<Rightarrow> double \<Rightarrow> bool" where
  "fle a b = (a \<noteq> NaN \<and> b \<noteq> NaN \<and> (flt a b \<or> a = b))"

text \<open>\<^verbatim>\<open>max(a, b)\<close> keeps its first argument unless the second is greater.\<close>

definition py_max :: "double \<Rightarrow> double \<Rightarrow> double" where
  "py_max a b = (if flt a b then b else a)"

definition is_finite :: "double \<Rightarrow> bool" where
  "is_finite a = (case a of Fin x \<Rightarrow> True | _ \<Rightarrow> False)"

text \<open>
  \<^verbatim>\<open>round(x, n)\<close> on a float: the exact value of \<^verbatim>\<open>x\<close> is rounded to \<open>n\<close>
  decimals, a tie to the even digit, and the decimal result is read back as the nearest
  double. An infinity and NaN are returned as they are.
\<close>

fun py_round_fp :: "double \<Rightarrow> nat \<Rightarrow> double" where
  "py_round_fp (Fin x) n = rnd (of_int (round_half_even (x * 10 ^ n)) / 10 ^ n)"
| "py_round_fp a n = a"

text \<open>
  \<^verbatim>\<open>sum(xs)\<close> over floats. The interpreter adds from the left, starting at 0; since
  CPython 3.12 it also carries Neumaier's compensation term \<open>c\<close>, the rounding errors of
  the additions, and adds it at the end when it is finite and not zero. Both algorithms
  are modelled; which one runs is a parameter of the calculator.
\<close>

datatype summation = Plain | Compensated

definition sum_plain :: "double list \<Rightarrow> double" where
  "sum_plain xs = foldl fadd (Fin 0) xs"

fun cs_add :: "double \<times> double \<Rightarrow> double \<Rightarrow> double \<times> double" where
  "cs_add (f, c) x =
     (let t = fadd f x
      in (t, if fle (fabs x) (fabs f) then fadd c (fadd (fsub f t) x)
             else fadd c (fadd (fsub x t) f)))"

definition cs_result :: "double \<times> double \<Rightarrow> double" where
  "cs_result fc = (case fc of (f, c) \<Rightarrow> if c \<noteq> Fin 0 \<and> is_finite c then fadd f c else f)"

fun sum_compensated :: "double list \<Rightarrow> double" where
  "sum_compensated [] = Fin 0"
| "sum_compensated (x # xs) = cs_result (foldl cs_add (fadd (Fin 0) x, Fin 0) xs)"

fun py_sum_fp :: "summation \<Rightarrow> double list \<Rightarrow> double" where
  "py_sum_fp Plain xs = sum_plain xs"
| "py_sum_fp Compensated xs = sum_compensated xs"

text \<open>A decimal literal of the source is the double nearest to it.\<close>

definition lit :: "real \<Rightarrow> double" where
  "lit x = rnd x"

definition MW_FE2O3_fp :: double where
  "MW_FE2O3_fp = lit 159.69"

definition MW_FEO_fp :: double where
  "MW_FEO_fp = lit 71.844"

type_synonym oxides_fp = "string \<rightharpoonup> double"

text \<open>\<^verbatim>\<open>float(oxides.get(k, 0.0))\<close>, lines 44 to 53.\<close>

definition get_oxide_fp :: "oxides_fp \<Rightarrow> string \<Rightarrow> double" where
  "get_oxide_fp oxides k = (case oxides k of None \<Rightarrow> Fin 0 | Some v \<Rightarrow> v)"

text \<open>
  The value of the variable \<^verbatim>\<open>FeO\<close> after lines 55 and 56. The divisor of line 56
  is the constant \<^verbatim>\<open>MW_FE2O3\<close>, not zero, so the division does not raise.
\<close>

definition speciate_FeO_fp :: "double \<Rightarrow> double \<Rightarrow> double" where
  "speciate_FeO_fp FeO Fe2O3 =
     (if fle FeO (Fin 0) \<and> flt (Fin 0) Fe2O3
      then fmul Fe2O3 (fdiv (fmul (Fin 2) MW_FEO_fp) MW_FE2O3_fp)
      else FeO)"

text \<open>The dictionary \<^verbatim>\<open>raw\<close>, lines 44 to 68, in the order of its literal.\<close>

definition raw_fp :: "oxides_fp \<Rightarrow> (string \<times> double) list" where
  "raw_fp oxides =
     (let SiO2 = get_oxide_fp oxides ''SiO2'';
          Al2O3 = get_oxide_fp oxides ''Al2O3'';
          Fe2O3 = get_oxide_fp oxides ''Fe2O3'';
          FeO = get_oxide_fp oxides ''FeO'';
          MgO = get_oxide_fp oxides ''MgO'';
          CaO = get_oxide_fp oxides ''CaO'';
          Na2O = get_oxide_fp oxides ''Na2O'';
          K2O = get_oxide_fp oxides ''K2O'';
          TiO2 = get_oxide_fp oxides ''TiO2'';
          P2O5 = get_oxide_fp oxides ''P2O5'';
          FeO = speciate_FeO_fp FeO Fe2O3
      in [(''Quartz (Q)'',
             py_max (Fin 0) (fsub SiO2 (fadd (fadd (fmul Al2O3 (lit 2)) CaO) MgO))),
          (''Orthoclase (Or)'', fmul K2O (lit 6.58)),
          (''Albite (Ab)'', fmul Na2O (lit 8.52)),
          (''Anorthite (An)'', fmul CaO (lit 2.35)),
          (''Diopside (Di)'', fmul (fadd CaO MgO) (lit 1.1)),
          (''Olivine (Ol)'', fmul (fadd MgO FeO) (lit 0.9)),
          (''Magnetite (Mt)'', fmul Fe2O3 (lit 1.43)),
          (''Ilmenite (Il)'', fmul TiO2 (lit 1.89)),
          (''Apatite (Ap)'', fmul P2O5 (lit 3.33))])"

text \<open>\<^verbatim>\<open>total_raw\<close>, line 70.\<close>

definition total_raw_fp :: "summation \<Rightarrow> oxides_fp \<Rightarrow> double" where
  "total_raw_fp alg oxides = py_sum_fp alg (map snd (raw_fp oxides))"

text \<open>
  One value of the comprehension of line 71:
  \<^verbatim>\<open>round((v / total_raw) * 100.0, 4) if total_raw > 0 else 0.0\<close>.
\<close>

definition normalise_value_fp :: "double \<Rightarrow> double \<Rightarrow> double result" where
  "normalise_value_fp t v =
     (if flt (Fin 0) t
      then bind_result (py_truediv_fp v t) (\<lambda>q. Inr (py_round_fp (fmul q (lit 100)) 4))
      else Inr (Fin 0))"

text \<open>The comprehension of line 71 over \<^verbatim>\<open>raw.items()\<close>; the first exception ends it.\<close>

fun normalise_items_fp ::
  "double \<Rightarrow> (string \<times> double) list \<Rightarrow> (string \<times> double) list result" where
  "normalise_items_fp t [] = Inr []"
| "normalise_items_fp t ((k, v) # kvs) =
     bind_result (normalise_value_fp t v) (\<lambda>w.
       bind_result (normalise_items_fp t kvs) (\<lambda>rest. Inr ((k, w) # rest)))"

text \<open>\<^verbatim>\<open>calculate_cipw\<close>, lines 43 to 85, with the summation of the interpreter.\<close>

definition calculate_cipw_fp ::
  "summation \<Rightarrow> oxides_fp \<Rightarrow> ((string \<times> double) list \<times> (string \<times> string) list) result" where
  "calculate_cipw_fp alg oxides =
     bind_result (normalise_items_fp (total_raw_fp alg oxides) (raw_fp oxides))
       (\<lambda>minerals. Inr (minerals, descriptions))"

subsection \<open>Predicates on doubles\<close>

text \<open>
  A composition is valid when each of the ten oxides has a finite, non-negative value; a
  missing oxide reads as 0.
\<close>

definition finite_nonneg :: "double \<Rightarrow> bool" where
  "finite_nonneg d = (case d of Fin x \<Rightarrow> 0 \<le> x | _ \<Rightarrow> False)"

definition non_negative_fp :: "oxides_fp \<Rightarrow> bool" where
  "non_negative_fp oxides = list_all (\<lambda>k. finite_nonneg (get_oxide_fp oxides k)) OXIDES"

definition in_range :: "real \<Rightarrow> real \<Rightarrow> double \<Rightarrow> bool" where
  "in_range lo hi d = (case d of Fin x \<Rightarrow> lo \<le> x \<and> x \<le> hi | _ \<Rightarrow> False)"

text \<open>The real value of a finite double.\<close>

definition fin_val :: "double \<Rightarrow> real" where
  "fin_val d = (case d of Fin x \<Rightarrow> x | _ \<Rightarrow> 0)"

text \<open>
  A non-negative finite double; a double that is non-negative or the positive infinity,
  on the grid or not.
\<close>

definition nn_double :: "real \<Rightarrow> bool" where
  "nn_double x = (0 \<le> x \<and> on_grid x \<and> x < 2 ^ 1024)"

definition weak_nn :: "double \<Rightarrow> bool" where
  "weak_nn d = (case d of Fin x \<Rightarrow> 0 \<le> x | PInf \<Rightarrow> True | _ \<Rightarrow> False)"

definition nn_or_inf :: "double \<Rightarrow> bool" where
  "nn_or_inf d = (case d of Fin x \<Rightarrow> nn_double x | PInf \<Rightarrow> True | _ \<Rightarrow> False)"

text \<open>
  What holds of a running sum after \<open>n\<close> additions of non-negative doubles whose exact
  sum is \<open>A\<close>: it is within \<open>n\<close> roundings of \<open>A\<close>, or it has overflowed and \<open>A\<close> is
  large; the compensation term is small against \<open>A\<close>.
\<close>

definition sum_inv :: "nat \<Rightarrow> real \<Rightarrow> double \<Rightarrow> bool" where
  "sum_inv n A d =
     (case d of
        Fin f \<Rightarrow> nn_double f \<and> \<bar>f - A\<bar> \<le> real n * A / 2 ^ 52
      | PInf \<Rightarrow> 2 ^ 1022 \<le> A
      | _ \<Rightarrow> False)"

definition cs_inv :: "nat \<Rightarrow> real \<Rightarrow> double \<times> double \<Rightarrow> bool" where
  "cs_inv n A fc =
     (case fc of
        (Fin f, Fin c) \<Rightarrow>
          nn_double f \<and> \<bar>f - A\<bar> \<le> real n * A / 2 ^ 52
          \<and> min_grid c \<and> \<bar>c\<bar> \<le> real n * A / 2 ^ 49
      | (PInf, c) \<Rightarrow> 2 ^ 1022 \<le> A
      | _ \<Rightarrow> False)"

text \<open>
  The weight of a raw weight \<open>v\<close> against a total \<open>T\<close>, as a real: the three
  roundings of line 71 and the rounding to 4 decimals.
\<close>

definition weight :: "real \<Rightarrow> real \<Rightarrow> real" where
  "weight T v =
     rnd_val (of_int (round_half_even (rnd_val (rnd_val (v / T) * 100) * 10 ^ 4)) / 10 ^ 4)"

subsection \<open>Compositions in double precision\<close>

text \<open>
  A composition of SiO2 alone; and \<open>2 ^ 1023\<close>, a finite double, as the only oxide of
  two compositions.
\<close>

definition pure_silica :: oxides_fp where
  "pure_silica = [''SiO2'' \<mapsto> Fin 100]"

definition huge :: real where
  "huge = 2 ^ 1023"

definition huge_K2O :: oxides_fp where
  "huge_K2O = [''K2O'' \<mapsto> Fin huge]"

definition huge_Na2O :: oxides_fp where
  "huge_Na2O = [''Na2O'' \<mapsto> Fin huge]"

section \<open>The store of saved analyses\<close>

text \<open>
  The values \<^verbatim>\<open>json.load\<close> returns and \<^verbatim>\<open>json.dump\<close> accepts. A \<^verbatim>\<open>dict\<close> is
  an association list in insertion order.
\<close>

datatype json =
    JNull
  | JBool bool
  | JInt int
  | JFloat real
  | JStr string
  | JList "json list"
  | JDict "(string \<times> json) list"

type_synonym document = "(string \<times> json) list"

text \<open>
  A file has its permissions and its bytes; the file system maps a path to its file.
  The directory \<^verbatim>\<open>data\<close> is made when the module is loaded (line 34), so a file can
  always be created in it.
\<close>

record file_node =
  readable :: bool
  writable :: bool
  content :: string

type_synonym fs = "string \<rightharpoonup> file_node"

definition DATA_DIR :: string where
  "DATA_DIR = ''data''"

definition SAVED_JSON :: string where
  "SAVED_JSON = DATA_DIR @ ''/'' @ ''saved_analyses.json''"

text \<open>\<^verbatim>\<open>os.path.exists(path)\<close>.\<close>

definition path_exists :: "fs \<Rightarrow> string \<Rightarrow> bool" where
  "path_exists fs path = (fs path \<noteq> None)"

text \<open>\<^verbatim>\<open>open(path, "r", encoding="utf-8")\<close> and the bytes then read from it.\<close>

definition open_read :: "fs \<Rightarrow> string \<Rightarrow> string result" where
  "open_read fs path =
     (case fs path of
        None \<Rightarrow> Inl OSError
      | Some f \<Rightarrow> if readable f then Inr (content f) else Inl OSError)"

text \<open>\<^verbatim>\<open>isinstance(data, dict)\<close>, and the items of a \<^verbatim>\<open>dict\<close>.\<close>

definition isinstance_dict :: "json \<Rightarrow> bool" where
  "isinstance_dict data = (case data of JDict d \<Rightarrow> True | _ \<Rightarrow> False)"

definition dict_items :: "json \<Rightarrow> document" where
  "dict_items data = (case data of JDict d \<Rightarrow> d | _ \<Rightarrow> [])"

text \<open>
  \<^verbatim>\<open>load_saved_analyses\<close>, lines 90 to 98. \<open>json_load\<close> is the library's decoder and
  parser of the bytes of a file. The bare \<^verbatim>\<open>except\<close> takes every exception of the
  \<^verbatim>\<open>try\<close> block.
\<close>

definition load_saved_analyses :: "(string \<Rightarrow> json result) \<Rightarrow> fs \<Rightarrow> document result" where
  "load_saved_analyses json_load fs =
     (if \<not> path_exists fs SAVED_JSON then Inr []
      else case bind_result (open_read fs SAVED_JSON) (\<lambda>text.
                  bind_result (json_load text) (\<lambda>data.
                    Inr (if isinstance_dict data then dict_items data else [])))
           of Inl e \<Rightarrow> Inr []
            | Inr d \<Rightarrow> Inr d)"

text \<open>
  \<^verbatim>\<open>open(path, "w", encoding="utf-8")\<close>: an existing file must be writable and is
  truncated where it is; a missing file is created empty.
\<close>

definition open_write :: "fs \<Rightarrow> string \<Rightarrow> fs result" where
  "open_write fs path =
     (case fs path of
        None \<Rightarrow> Inr (fs(path \<mapsto> \<lparr>readable = True, writable = True, content = []\<rparr>))
      | Some f \<Rightarrow> if writable f then Inr (fs(path \<mapsto> f\<lparr>content := []\<rparr>)) else Inl OSError)"

text \<open>Writing text to the open file and closing it.\<close>

definition write_text :: "fs \<Rightarrow> string \<Rightarrow> string \<Rightarrow> fs" where
  "write_text fs path text =
     (case fs path of
        None \<Rightarrow> fs
      | Some f \<Rightarrow> fs(path \<mapsto> f\<lparr>content := content f @ text\<rparr>))"

text \<open>
  \<^verbatim>\<open>write_saved_analyses\<close>, lines 100 to 102, as the file systems it passes through.
  The first is the one after \<^verbatim>\<open>open\<close>. The text of \<^verbatim>\<open>json.dump\<close> then goes
  through the buffer of the file object and arrives at the file from its start, piece after
  piece: \<open>flushes\<close> lists how many characters of it the file holds at the moments in
  between, which the buffer decides and not the program. The last file system is the one
  after the end of the \<^verbatim>\<open>with\<close> block, with the whole text. A process that is
  interrupted leaves the file system in the state it had reached. \<open>json_dump\<close> is the
  library's serialiser, with the arguments of line 102.
\<close>

definition write_steps ::
  "(json \<Rightarrow> string) \<Rightarrow> nat list \<Rightarrow> document \<Rightarrow> fs \<Rightarrow> fs list result" where
  "write_steps json_dump flushes d fs =
     bind_result (open_write fs SAVED_JSON) (\<lambda>opened.
       Inr (opened
            # map (\<lambda>n. write_text opened SAVED_JSON (take n (json_dump (JDict d)))) flushes
            @ [write_text opened SAVED_JSON (json_dump (JDict d))]))"

text \<open>What the function returns does not depend on the moments in between.\<close>

definition write_saved_analyses :: "(json \<Rightarrow> string) \<Rightarrow> document \<Rightarrow> fs \<Rightarrow> fs result" where
  "write_saved_analyses json_dump d fs =
     bind_result (write_steps json_dump [] d fs) (\<lambda>states. Inr (last states))"

text \<open>
  A save is atomic when a reader of the target, at any moment of the write, finds either
  the file as it was or the whole new document.
\<close>

definition atomic_write :: "(json \<Rightarrow> string) \<Rightarrow> nat list \<Rightarrow> document \<Rightarrow> fs \<Rightarrow> bool" where
  "atomic_write json_dump flushes d fs =
     (case write_steps json_dump flushes d fs of
        Inl e \<Rightarrow> True
      | Inr states \<Rightarrow>
          list_all (\<lambda>s. s SAVED_JSON = fs SAVED_JSON
                      \<or> map_option content (s SAVED_JSON) = Some (json_dump (JDict d))) states)"

text \<open>
  Modelled from the spec: \<^verbatim>\<open>AnalysisRecord\<close> and the persisted form of one, which the
  source does not have. The spec gives the fields
  \<^verbatim>\<open>{name, timestamp, note, oxides, result}\<close>, the last two flat mappings from a key to
  a number.
\<close>

record analysis_record =
  rec_name :: string
  rec_timestamp :: string
  rec_note :: string
  rec_oxides :: "(string \<times> real) list"
  rec_result :: "(string \<times> real) list"

definition record_json :: "analysis_record \<Rightarrow> json" where
  "record_json r =
     JDict [(''name'', JStr (rec_name r)),
            (''timestamp'', JStr (rec_timestamp r)),
            (''note'', JStr (rec_note r)),
            (''oxides'', JDict (map (\<lambda>(k, v). (k, JFloat v)) (rec_oxides r))),
            (''result'', JDict (map (\<lambda>(k, v). (k, JFloat v)) (rec_result r)))]"

text \<open>
  Modelled from the spec: \<^verbatim>\<open>save(record)\<close> of the store, which the source does not
  have. The spec: it upserts the record by its name into the full document and writes the
  entire document back; the document is read fully on each call.
\<close>

definition save ::
  "(string \<Rightarrow> json result) \<Rightarrow> (json \<Rightarrow> string) \<Rightarrow> analysis_record \<Rightarrow> fs \<Rightarrow> fs result" where
  "save json_load json_dump r fs =
     bind_result (load_saved_analyses json_load fs) (\<lambda>doc.
       write_saved_analyses json_dump (AList.update (rec_name r) (record_json r) doc) fs)"

text \<open>
  Modelled from the spec: \<^verbatim>\<open>delete(name)\<close> of the store, which the source does not
  have. The spec: it removes the entry if present and is a no-op, not an error, if absent.
\<close>

definition delete ::
  "(string \<Rightarrow> json result) \<Rightarrow> (json \<Rightarrow> string) \<Rightarrow> string \<Rightarrow> fs \<Rightarrow> fs result" where
  "delete json_load json_dump n fs =
     bind_result (load_saved_analyses json_load fs) (\<lambda>doc.
       if map_of doc n = None then Inr fs
       else write_saved_analyses json_dump (AList.delete n doc) fs)"

text \<open>
  The target is absent or can be read: what a later \<^verbatim>\<open>load_saved_analyses\<close> needs of
  the file system a write starts from.
\<close>

definition readable_or_absent :: "fs \<Rightarrow> string \<Rightarrow> bool" where
  "readable_or_absent fs path = (case fs path of None \<Rightarrow> True | Some f \<Rightarrow> readable f)"

subsection \<open>Concrete documents and files\<close>

text \<open>
  A record, the same record with its note edited, and a stand-in for the library's
  serialiser and parser that knows the documents built from them: each known value has
  one text, which parses back to it, and a text it does not know fails to parse.
\<close>

definition sample_record :: analysis_record where
  "sample_record =
     \<lparr>rec_name = ''run1'', rec_timestamp = ''2024-01-01T00:00:00'', rec_note = [],
      rec_oxides = [(''SiO2'', 60)], rec_result = [(''Quartz (Q)'', 100)]\<rparr>"

definition sample_doc :: document where
  "sample_doc = [(''run1'', record_json sample_record)]"

definition edited_doc :: document where
  "edited_doc = [(''run1'', record_json (sample_record\<lparr>rec_note := ''checked''\<rparr>))]"

definition sample_json_dump :: "json \<Rightarrow> string" where
  "sample_json_dump j =
     (if j = JDict [] then ''{}''
      else if j = JDict sample_doc then ''{run1}''
      else if j = JDict edited_doc then ''{run1 checked}''
      else if j = JList [] then ''[]''
      else ''null'')"

definition sample_json_load :: "string \<Rightarrow> json result" where
  "sample_json_load text =
     (if text = ''{}'' then Inr (JDict [])
      else if text = ''{run1}'' then Inr (JDict sample_doc)
      else if text = ''{run1 checked}'' then Inr (JDict edited_doc)
      else if text = ''[]'' then Inr (JList [])
      else if text = ''null'' then Inr JNull
      else Inl JSONDecodeError)"

definition file_with :: "bool \<Rightarrow> string \<Rightarrow> fs" where
  "file_with r text = [SAVED_JSON \<mapsto> \<lparr>readable = r, writable = True, content = text\<rparr>]"

section \<open>Properties of the calculator\<close>

lemma bind_result_Inr [simp]: "bind_result (Inr v) f = f v"
  by (simp add: bind_result_def)

lemma bind_result_Inl [simp]: "bind_result (Inl e) f = Inl e"
  by (simp add: bind_result_def)

lemma normalise_value_pos: "0 < t \<Longrightarrow> normalise_value t v = Inr (py_round (v / t * 100) 4)"
  by (simp add: normalise_value_def py_truediv_def)

lemma normalise_value_nonpos: "\<not> 0 < t \<Longrightarrow> normalise_value t v = Inr 0"
  by (simp add: normalise_value_def)

lemma normalise_items_pos:
  "0 < t \<Longrightarrow> normalise_items t kvs = Inr (map (\<lambda>(k, v). (k, py_round (v / t * 100) 4)) kvs)"
  by (induction kvs) (auto simp: normalise_value_pos)

lemma normalise_items_nonpos:
  "\<not> 0 < t \<Longrightarrow> normalise_items t kvs = Inr (map (\<lambda>(k, v). (k, 0)) kvs)"
  by (induction kvs) (auto simp: normalise_value_nonpos)

lemma round_half_even_error: "\<bar>of_int (round_half_even x) - x\<bar> \<le> 1 / 2"
proof -
  have "of_int \<lfloor>x\<rfloor> \<le> x" "x < of_int \<lfloor>x\<rfloor> + 1" by linarith+
  then show ?thesis
    by (auto simp: round_half_even_def Let_def)
qed

lemma round_half_even_le_int: "x \<le> of_int n \<Longrightarrow> round_half_even x \<le> n"
proof -
  assume le: "x \<le> of_int n"
  then have fl: "\<lfloor>x\<rfloor> \<le> n" by (simp add: floor_le_iff)
  show ?thesis
  proof (cases "\<lfloor>x\<rfloor> = n")
    case True
    have "of_int \<lfloor>x\<rfloor> \<le> x" by simp
    with le True have "x - of_int \<lfloor>x\<rfloor> = 0" by simp
    with True show ?thesis by (simp add: round_half_even_def Let_def)
  next
    case False
    with fl have "\<lfloor>x\<rfloor> + 1 \<le> n" by simp
    with fl show ?thesis by (simp add: round_half_even_def Let_def)
  qed
qed

lemma abs_error_step:
  fixes r x s' s n e :: real
  assumes "\<bar>r - x\<bar> \<le> e" and "\<bar>s' - s\<bar> \<le> n * e"
  shows "\<bar>(r + s') - (x + s)\<bar> \<le> (1 + n) * e"
proof -
  have "(1 + n) * e = e + n * e" by (simp add: distrib_right)
  with assms show ?thesis by linarith
qed

lemma member_le_sum_list_real:
  "list_all (\<lambda>v. 0 \<le> v) vs \<Longrightarrow> list_all (\<lambda>v. v \<le> sum_list vs) (vs :: real list)"
proof (induction vs)
  case Nil
  show ?case by simp
next
  case (Cons v vs)
  then have nn: "0 \<le> v" and rest: "list_all (\<lambda>v. 0 \<le> v) vs" by simp_all
  from rest have s: "0 \<le> sum_list vs" by (induction vs) auto
  from Cons.IH [OF rest] nn have "list_all (\<lambda>w. w \<le> v + sum_list vs) vs"
    by (auto simp: list_all_iff intro: order_trans)
  with s show ?case by simp
qed

lemma calculate_cipw_pos:
  "0 < total_raw oxides \<Longrightarrow>
     calculate_cipw oxides =
       Inr (map (\<lambda>(k, v). (k, py_round (v / total_raw oxides * 100) 4)) (raw oxides), descriptions)"
  by (simp add: calculate_cipw_def normalise_items_pos)

lemma calculate_cipw_nonpos:
  "\<not> 0 < total_raw oxides \<Longrightarrow>
     calculate_cipw oxides = Inr (map (\<lambda>(k, v). (k, 0)) (raw oxides), descriptions)"
  by (simp add: calculate_cipw_def normalise_items_nonpos)

lemma raw_unfold:
  "raw oxides =
     [(''Quartz (Q)'', max 0 (get_oxide oxides ''SiO2''
          - (get_oxide oxides ''Al2O3'' * 2 + get_oxide oxides ''CaO'' + get_oxide oxides ''MgO''))),
      (''Orthoclase (Or)'', get_oxide oxides ''K2O'' * 6.58),
      (''Albite (Ab)'', get_oxide oxides ''Na2O'' * 8.52),
      (''Anorthite (An)'', get_oxide oxides ''CaO'' * 2.35),
      (''Diopside (Di)'', (get_oxide oxides ''CaO'' + get_oxide oxides ''MgO'') * 1.1),
      (''Olivine (Ol)'',
         (get_oxide oxides ''MgO''
            + speciate_FeO (get_oxide oxides ''FeO'') (get_oxide oxides ''Fe2O3'')) * 0.9),
      (''Magnetite (Mt)'', get_oxide oxides ''Fe2O3'' * 1.43),
      (''Ilmenite (Il)'', get_oxide oxides ''TiO2'' * 1.89),
      (''Apatite (Ap)'', get_oxide oxides ''P2O5'' * 3.33)]"
  by (simp add: raw_def Let_def)

lemma speciate_FeO_nonneg: "0 \<le> FeO \<Longrightarrow> 0 \<le> Fe2O3 \<Longrightarrow> 0 \<le> speciate_FeO FeO Fe2O3"
  by (simp add: speciate_FeO_def MW_FEO_def MW_FE2O3_def)

lemma raw_nonneg:
  assumes "non_negative oxides"
  shows "list_all (\<lambda>v. 0 \<le> v) (map snd (raw oxides))"
proof -
  from assms have g: "0 \<le> get_oxide oxides ''FeO''" "0 \<le> get_oxide oxides ''Fe2O3''"
    "0 \<le> get_oxide oxides ''MgO''" "0 \<le> get_oxide oxides ''CaO''"
    "0 \<le> get_oxide oxides ''Na2O''" "0 \<le> get_oxide oxides ''K2O''"
    "0 \<le> get_oxide oxides ''TiO2''" "0 \<le> get_oxide oxides ''P2O5''"
    by (simp_all add: non_negative_def OXIDES_def)
  from g(1,2) have "0 \<le> speciate_FeO (get_oxide oxides ''FeO'') (get_oxide oxides ''Fe2O3'')"
    by (rule speciate_FeO_nonneg)
  with g show ?thesis
    by (simp add: raw_unfold)
qed

text \<open>
  C4. The raw Quartz weight is \<open>max 0 (SiO2 - (2 Al2O3 + CaO + MgO))\<close>; each of the
  other eight raw weights is its linear formula with no clipping (a negative K2O gives a
  negative Orthoclase), and none of the nine is negative when the oxide values are
  non-negative. The composition \<open>{SiO2: 40, Al2O3: 30, CaO: 10, MgO: 5}\<close> has raw
  Quartz 0.
\<close>

theorem raw_quartz_clipped:
  "map_of (raw oxides) ''Quartz (Q)'' =
     Some (max 0 (get_oxide oxides ''SiO2''
       - (2 * get_oxide oxides ''Al2O3'' + get_oxide oxides ''CaO'' + get_oxide oxides ''MgO'')))
   \<and> map_of (raw oxides) ''Orthoclase (Or)'' = Some (get_oxide oxides ''K2O'' * 6.58)
   \<and> map_of (raw oxides) ''Albite (Ab)'' = Some (get_oxide oxides ''Na2O'' * 8.52)
   \<and> map_of (raw oxides) ''Anorthite (An)'' = Some (get_oxide oxides ''CaO'' * 2.35)
   \<and> map_of (raw oxides) ''Diopside (Di)'' =
       Some ((get_oxide oxides ''CaO'' + get_oxide oxides ''MgO'') * 1.1)
   \<and> map_of (raw oxides) ''Olivine (Ol)'' =
       Some ((get_oxide oxides ''MgO''
          + speciate_FeO (get_oxide oxides ''FeO'') (get_oxide oxides ''Fe2O3'')) * 0.9)
   \<and> map_of (raw oxides) ''Magnetite (Mt)'' = Some (get_oxide oxides ''Fe2O3'' * 1.43)
   \<and> map_of (raw oxides) ''Ilmenite (Il)'' = Some (get_oxide oxides ''TiO2'' * 1.89)
   \<and> map_of (raw oxides) ''Apatite (Ap)'' = Some (get_oxide oxides ''P2O5'' * 3.33)
   \<and> (non_negative oxides \<longrightarrow> list_all (\<lambda>(k, v). 0 \<le> v) (raw oxides))
   \<and> map_of (raw quartz_example) ''Quartz (Q)'' = Some 0
   \<and> map_of (raw [''K2O'' \<mapsto> - 1]) ''Orthoclase (Or)'' = Some (- 6.58)"
proof -
  have nn: "non_negative oxides \<longrightarrow> list_all (\<lambda>(k, v). 0 \<le> v) (raw oxides)"
  proof
    assume "non_negative oxides"
    then have "list_all (\<lambda>v. 0 \<le> v) (map snd (raw oxides))" by (rule raw_nonneg)
    then show "list_all (\<lambda>(k, v). 0 \<le> v) (raw oxides)"
      by (simp add: list_all_iff split_beta)
  qed
  have q: "map_of (raw quartz_example) ''Quartz (Q)'' = Some 0"
    by (simp add: raw_unfold quartz_example_def get_oxide_def)
  have k: "map_of (raw [''K2O'' \<mapsto> - 1]) ''Orthoclase (Or)'' = Some (- 6.58)"
    by (simp add: raw_unfold get_oxide_def)
  have f: "map_of (raw oxides) ''Quartz (Q)'' =
     Some (max 0 (get_oxide oxides ''SiO2''
       - (2 * get_oxide oxides ''Al2O3'' + get_oxide oxides ''CaO'' + get_oxide oxides ''MgO'')))"
    by (simp add: raw_unfold mult.commute)
  have r: "map_of (raw oxides) ''Orthoclase (Or)'' = Some (get_oxide oxides ''K2O'' * 6.58)"
    "map_of (raw oxides) ''Albite (Ab)'' = Some (get_oxide oxides ''Na2O'' * 8.52)"
    "map_of (raw oxides) ''Anorthite (An)'' = Some (get_oxide oxides ''CaO'' * 2.35)"
    "map_of (raw oxides) ''Diopside (Di)'' =
       Some ((get_oxide oxides ''CaO'' + get_oxide oxides ''MgO'') * 1.1)"
    "map_of (raw oxides) ''Olivine (Ol)'' =
       Some ((get_oxide oxides ''MgO''
          + speciate_FeO (get_oxide oxides ''FeO'') (get_oxide oxides ''Fe2O3'')) * 0.9)"
    "map_of (raw oxides) ''Magnetite (Mt)'' = Some (get_oxide oxides ''Fe2O3'' * 1.43)"
    "map_of (raw oxides) ''Ilmenite (Il)'' = Some (get_oxide oxides ''TiO2'' * 1.89)"
    "map_of (raw oxides) ''Apatite (Ap)'' = Some (get_oxide oxides ''P2O5'' * 3.33)"
    by (simp_all add: raw_unfold)
  from f r nn q k show ?thesis by blast
qed

theorem raw_quartz_clipped_witness:
  "non_negative quartz_example
   \<and> list_all (\<lambda>(k, v). 0 \<le> v) (raw quartz_example)
   \<and> map_of (raw quartz_example) ''Quartz (Q)'' = Some 0"
proof -
  have "non_negative quartz_example"
    by (simp add: non_negative_def OXIDES_def quartz_example_def get_oxide_def)
  with raw_quartz_clipped [of quartz_example] show ?thesis by blast
qed

text \<open>
  C3, as stated, gives the imputed FeO of \<open>{Fe2O3: 10, FeO: 0}\<close> as about 9.0007. The
  code's value is \<open>10 * (2 * 71.844 / 159.69)\<close>, more than 0.001 away from it.
\<close>

theorem imputed_FeO_counterexample:
  "\<not> \<bar>speciate_FeO (get_oxide iron_example ''FeO'') (get_oxide iron_example ''Fe2O3'')
        - 9.0007\<bar> \<le> 1 / 1000"
  by (simp add: iron_example_def get_oxide_def speciate_FeO_def MW_FEO_def MW_FE2O3_def)

lemma get_oxide_upd_other: "k \<noteq> j \<Longrightarrow> get_oxide (oxides(j \<mapsto> x)) k = get_oxide oxides k"
  by (simp add: get_oxide_def)

text \<open>
  C3, amended. When FeO is not positive (zero, negative or missing) and Fe2O3 is positive,
  Olivine is computed from \<open>Fe2O3 * (2 * 71.844 / 159.69)\<close> in place of FeO; otherwise
  from FeO as given. Magnetite uses Fe2O3 as given, and FeO enters no raw weight other
  than Olivine. For \<open>{Fe2O3: 10, FeO: 0}\<close> the imputed FeO is \<open>143688 / 15969\<close>, about
  8.9979.
\<close>

theorem speciation_rule:
  "(get_oxide oxides ''FeO'' \<le> 0 \<and> 0 < get_oxide oxides ''Fe2O3'' \<longrightarrow>
      map_of (raw oxides) ''Olivine (Ol)'' =
        Some ((get_oxide oxides ''MgO''
                + get_oxide oxides ''Fe2O3'' * (2 * 71.844 / 159.69)) * 0.9))
   \<and> (\<not> (get_oxide oxides ''FeO'' \<le> 0 \<and> 0 < get_oxide oxides ''Fe2O3'') \<longrightarrow>
      map_of (raw oxides) ''Olivine (Ol)'' =
        Some ((get_oxide oxides ''MgO'' + get_oxide oxides ''FeO'') * 0.9))
   \<and> map_of (raw oxides) ''Magnetite (Mt)'' = Some (get_oxide oxides ''Fe2O3'' * 1.43)
   \<and> (k \<noteq> ''Olivine (Ol)'' \<longrightarrow> map_of (raw (oxides(''FeO'' \<mapsto> x))) k = map_of (raw oxides) k)
   \<and> speciate_FeO (get_oxide iron_example ''FeO'') (get_oxide iron_example ''Fe2O3'')
       = 143688 / 15969
   \<and> \<bar>speciate_FeO (get_oxide iron_example ''FeO'') (get_oxide iron_example ''Fe2O3'')
        - 8.9979\<bar> \<le> 1 / 10000"
proof -
  have a: "get_oxide oxides ''FeO'' \<le> 0 \<and> 0 < get_oxide oxides ''Fe2O3'' \<longrightarrow>
      map_of (raw oxides) ''Olivine (Ol)'' =
        Some ((get_oxide oxides ''MgO''
                + get_oxide oxides ''Fe2O3'' * (2 * 71.844 / 159.69)) * 0.9)"
    by (simp add: raw_unfold speciate_FeO_def MW_FEO_def MW_FE2O3_def)
  have b: "\<not> (get_oxide oxides ''FeO'' \<le> 0 \<and> 0 < get_oxide oxides ''Fe2O3'') \<longrightarrow>
      map_of (raw oxides) ''Olivine (Ol)'' =
        Some ((get_oxide oxides ''MgO'' + get_oxide oxides ''FeO'') * 0.9)"
    by (simp add: raw_unfold speciate_FeO_def)
  have c: "map_of (raw oxides) ''Magnetite (Mt)'' = Some (get_oxide oxides ''Fe2O3'' * 1.43)"
    by (simp add: raw_unfold)
  have d: "k \<noteq> ''Olivine (Ol)'' \<longrightarrow> map_of (raw (oxides(''FeO'' \<mapsto> x))) k = map_of (raw oxides) k"
    by (simp add: raw_unfold get_oxide_upd_other)
  have e: "speciate_FeO (get_oxide iron_example ''FeO'') (get_oxide iron_example ''Fe2O3'')
       = 143688 / 15969"
    by (simp add: iron_example_def get_oxide_def speciate_FeO_def MW_FEO_def MW_FE2O3_def)
  have f: "\<bar>speciate_FeO (get_oxide iron_example ''FeO'') (get_oxide iron_example ''Fe2O3'')
        - 8.9979\<bar> \<le> 1 / 10000"
    by (simp add: e)
  from a b c d e f show ?thesis by blast
qed

theorem speciation_rule_witness:
  "get_oxide iron_example ''FeO'' \<le> 0 \<and> 0 < get_oxide iron_example ''Fe2O3''
   \<and> map_of (raw iron_example) ''Olivine (Ol)'' = Some (143688 / 15969 * 0.9)
   \<and> \<not> (get_oxide scenario ''FeO'' \<le> 0 \<and> 0 < get_oxide scenario ''Fe2O3'')
   \<and> map_of (raw scenario) ''Olivine (Ol)'' = Some ((4 + 4) * 0.9)
   \<and> ''Magnetite (Mt)'' \<noteq> ''Olivine (Ol)''
   \<and> map_of (raw (scenario(''FeO'' \<mapsto> 7))) ''Magnetite (Mt)''
       = map_of (raw scenario) ''Magnetite (Mt)''"
proof -
  have i: "get_oxide iron_example ''FeO'' = 0" "get_oxide iron_example ''Fe2O3'' = 10"
    "get_oxide iron_example ''MgO'' = 0"
    by (simp_all add: iron_example_def get_oxide_def)
  have s: "get_oxide scenario ''FeO'' = 4" "get_oxide scenario ''Fe2O3'' = 3"
    "get_oxide scenario ''MgO'' = 4"
    by (simp_all add: scenario_def get_oxide_def)
  have n: "''Magnetite (Mt)'' \<noteq> ''Olivine (Ol)''" by simp
  from speciation_rule [of iron_example "''Magnetite (Mt)''" 7] i
  have a: "map_of (raw iron_example) ''Olivine (Ol)'' = Some (143688 / 15969 * 0.9)"
    by simp
  from speciation_rule [of scenario "''Magnetite (Mt)''" 7] s n
  have b: "map_of (raw scenario) ''Olivine (Ol)'' = Some ((4 + 4) * 0.9)"
    and c: "map_of (raw (scenario(''FeO'' \<mapsto> 7))) ''Magnetite (Mt)''
       = map_of (raw scenario) ''Magnetite (Mt)''"
    by simp_all
  from i s n a b c show ?thesis by simp
qed

lemma get_oxide_fill_missing: "get_oxide (fill_missing oxides) k = get_oxide oxides k"
  by (simp add: get_oxide_def fill_missing_def)

lemma raw_fill_missing: "raw (fill_missing oxides) = raw oxides"
  by (simp add: raw_def get_oxide_fill_missing)

text \<open>
  C8. \<^verbatim>\<open>calculate_cipw\<close> returns the same result on a mapping and on that mapping
  with every missing key of the ten oxides set to 0; a missing key reads as 0.
\<close>

theorem missing_keys_default:
  "calculate_cipw (fill_missing oxides) = calculate_cipw oxides
   \<and> list_all (\<lambda>k. fill_missing oxides k \<noteq> None) OXIDES
   \<and> list_all (\<lambda>k. fill_missing (oxides(k := None)) k = Some 0) OXIDES
   \<and> get_oxide (oxides(k := None)) k = 0"
proof -
  have a: "calculate_cipw (fill_missing oxides) = calculate_cipw oxides"
    by (simp only: calculate_cipw_def total_raw_def raw_fill_missing)
  have b: "list_all (\<lambda>k. fill_missing oxides k \<noteq> None) OXIDES"
    by (simp add: fill_missing_def list_all_iff)
  have c: "list_all (\<lambda>k. fill_missing (oxides(k := None)) k = Some 0) OXIDES"
    by (simp add: fill_missing_def list_all_iff)
  have d: "get_oxide (oxides(k := None)) k = 0"
    by (simp add: get_oxide_def)
  from a b c d show ?thesis by blast
qed

text \<open>
  C9. For every composition \<^verbatim>\<open>calculate_cipw\<close> returns minerals with the nine keys
  Quartz, Orthoclase, Albite, Anorthite, Diopside, Olivine, Magnetite, Ilmenite, Apatite
  in this order, and the constant \<open>descriptions\<close>, whose keys are the same in the same
  order.
\<close>

theorem calculate_cipw_keys:
  "\<exists>minerals. calculate_cipw oxides = Inr (minerals, descriptions)
     \<and> map fst minerals =
         [''Quartz (Q)'', ''Orthoclase (Or)'', ''Albite (Ab)'', ''Anorthite (An)'',
          ''Diopside (Di)'', ''Olivine (Ol)'', ''Magnetite (Mt)'', ''Ilmenite (Il)'',
          ''Apatite (Ap)'']
     \<and> map fst descriptions = map fst minerals
     \<and> distinct (map fst minerals)"
proof -
  have k: "map fst (raw oxides) =
         [''Quartz (Q)'', ''Orthoclase (Or)'', ''Albite (Ab)'', ''Anorthite (An)'',
          ''Diopside (Di)'', ''Olivine (Ol)'', ''Magnetite (Mt)'', ''Ilmenite (Il)'',
          ''Apatite (Ap)'']"
    by (simp add: raw_unfold)
  have f: "map fst (map (\<lambda>(k, v). (k, g k v)) kvs) = map fst kvs" for g :: "string \<Rightarrow> real \<Rightarrow> real" and kvs
    by (induction kvs) auto
  have d: "map fst descriptions =
         [''Quartz (Q)'', ''Orthoclase (Or)'', ''Albite (Ab)'', ''Anorthite (An)'',
          ''Diopside (Di)'', ''Olivine (Ol)'', ''Magnetite (Mt)'', ''Ilmenite (Il)'',
          ''Apatite (Ap)'']"
    by (simp add: descriptions_def)
  have dist: "distinct [''Quartz (Q)'', ''Orthoclase (Or)'', ''Albite (Ab)'', ''Anorthite (An)'',
          ''Diopside (Di)'', ''Olivine (Ol)'', ''Magnetite (Mt)'', ''Ilmenite (Il)'',
          ''Apatite (Ap)'']"
    by simp
  show ?thesis
  proof (cases "0 < total_raw oxides")
    case True
    from calculate_cipw_pos [OF True] k d dist
      f [of "\<lambda>k v. py_round (v / total_raw oxides * 100) 4" "raw oxides"]
    show ?thesis by simp
  next
    case False
    from calculate_cipw_nonpos [OF False] k d dist f [of "\<lambda>k v. 0" "raw oxides"]
    show ?thesis by simp
  qed
qed

section \<open>Properties of the calculator in double precision\<close>

subsection \<open>Rounding\<close>

lemma round_half_even_ge_int: "of_int n \<le> x \<Longrightarrow> n \<le> round_half_even x"
proof -
  assume "of_int n \<le> x"
  then have "n \<le> \<lfloor>x\<rfloor>" by (simp add: le_floor_iff)
  then show ?thesis by (simp add: round_half_even_def Let_def)
qed

lemma round_half_even_of_int [simp]: "round_half_even (of_int n) = n"
  by (simp add: round_half_even_def)

lemma round_half_even_mono: "x \<le> y \<Longrightarrow> round_half_even x \<le> round_half_even y"
proof -
  assume le: "x \<le> y"
  then have fl: "\<lfloor>x\<rfloor> \<le> \<lfloor>y\<rfloor>" by (rule floor_mono)
  show ?thesis
  proof (cases "\<lfloor>x\<rfloor> = \<lfloor>y\<rfloor>")
    case True
    with le have "x - of_int \<lfloor>x\<rfloor> \<le> y - of_int \<lfloor>y\<rfloor>" by simp
    with True show ?thesis by (auto simp: round_half_even_def Let_def)
  next
    case False
    with fl have "\<lfloor>x\<rfloor> + 1 \<le> \<lfloor>y\<rfloor>" by simp
    moreover have "round_half_even x \<le> \<lfloor>x\<rfloor> + 1" by (simp add: round_half_even_def Let_def)
    moreover have "\<lfloor>y\<rfloor> \<le> round_half_even y" by (simp add: round_half_even_def Let_def)
    ultimately show ?thesis by linarith
  qed
qed

lemma round_half_even_minus: "round_half_even (- x) = - round_half_even x"
proof (cases "x = of_int \<lfloor>x\<rfloor>")
  case True
  then obtain n where "x = of_int n" ..
  then have "- x = of_int (- n)" by simp
  with \<open>x = of_int n\<close> show ?thesis by (simp only: round_half_even_of_int)
next
  case False
  then have f: "\<lfloor>- x\<rfloor> = - \<lfloor>x\<rfloor> - 1"
    by (metis ceiling_altdef ceiling_def of_int_floor_cancel minus_diff_eq diff_minus_eq_add add.commute uminus_add_conv_diff floor_minus Ints_of_int)
  show ?thesis
    by (auto simp: round_half_even_def Let_def f)
qed

lemma ulp_from_ge: "0 < u \<Longrightarrow> u \<le> ulp_from n u a"
proof (induction n arbitrary: u)
  case 0
  show ?case by simp
next
  case (Suc n)
  from Suc.IH [of "2 * u"] Suc.prems show ?case by auto
qed

lemma ulp_from_pow: "\<exists>k\<le>n. ulp_from n u a = 2 ^ k * u"
proof (induction n arbitrary: u)
  case 0
  show ?case by simp
next
  case (Suc n)
  show ?case
  proof (cases "a < u * 2 ^ 53")
    case True
    then have "ulp_from (Suc n) u a = 2 ^ 0 * u" by simp
    then show ?thesis by blast
  next
    case False
    from Suc.IH [of "2 * u"] obtain k where "k \<le> n" "ulp_from n (2 * u) a = 2 ^ k * (2 * u)"
      by blast
    with False have "Suc k \<le> Suc n" "ulp_from (Suc n) u a = 2 ^ Suc k * u" by simp_all
    then show ?thesis by blast
  qed
qed

lemma ulp_from_upper: "ulp_from n u a \<noteq> 2 ^ n * u \<Longrightarrow> a < ulp_from n u a * 2 ^ 53"
proof (induction n arbitrary: u)
  case 0
  then show ?case by simp
next
  case (Suc n)
  show ?case
  proof (cases "a < u * 2 ^ 53")
    case True
    then show ?thesis by simp
  next
    case False
    with Suc.prems have "ulp_from n (2 * u) a \<noteq> 2 ^ n * (2 * u)" by simp
    from Suc.IH [OF this] False show ?thesis by simp
  qed
qed

lemma ulp_from_lower: "0 < u \<Longrightarrow> ulp_from n u a \<noteq> u \<Longrightarrow> ulp_from n u a * 2 ^ 52 \<le> a"
proof (induction n arbitrary: u)
  case 0
  then show ?case by simp
next
  case (Suc n)
  show ?case
  proof (cases "a < u * 2 ^ 53")
    case True
    with Suc.prems show ?thesis by simp
  next
    case False
    then have r: "ulp_from (Suc n) u a = ulp_from n (2 * u) a" by simp
    show ?thesis
    proof (cases "ulp_from n (2 * u) a = 2 * u")
      case True
      with False r show ?thesis by simp
    next
      case ne: False
      from Suc.prems have "0 < 2 * u" by simp
      from Suc.IH [OF this ne] r show ?thesis by simp
    qed
  qed
qed

lemma ulp_from_eq:
  "0 < u \<Longrightarrow> k \<le> n \<Longrightarrow> (k = 0 \<or> u * 2 ^ k * 2 ^ 52 \<le> a) \<Longrightarrow> (k = n \<or> a < u * 2 ^ k * 2 ^ 53) \<Longrightarrow>
   ulp_from n u a = u * 2 ^ k"
proof (induction n arbitrary: u k)
  case 0
  then show ?case by simp
next
  case (Suc n)
  show ?case
  proof (cases k)
    case 0
    with Suc.prems show ?thesis by simp
  next
    case (Suc j)
    with Suc.prems have lo: "u * 2 ^ 53 * 2 ^ j \<le> a" by (simp add: mult.assoc)
    have "(1::real) \<le> 2 ^ j" by simp
    with Suc.prems(1) have "u * 2 ^ 53 * 1 \<le> u * 2 ^ 53 * 2 ^ j"
      by (intro mult_left_mono) simp_all
    with lo have nb: "\<not> a < u * 2 ^ 53" by simp
    from Suc Suc.prems have "ulp_from n (2 * u) a = (2 * u) * 2 ^ j"
      by (intro Suc.IH) (auto simp: mult.assoc)
    with nb Suc show ?thesis by simp
  qed
qed

lemma ulp_from_mono: "0 < u \<Longrightarrow> a \<le> b \<Longrightarrow> ulp_from n u a \<le> ulp_from n u b"
proof (induction n arbitrary: u)
  case 0
  show ?case by simp
next
  case (Suc n)
  from Suc.prems have p: "0 < 2 * u" by simp
  from ulp_from_ge [OF p, of n b] Suc.prems Suc.IH [OF p Suc.prems(2)]
  show ?case by auto
qed

lemma u_min_pos: "0 < u_min"
  by (simp add: u_min_def)

lemma ulp_pos: "0 < ulp x"
  using ulp_from_ge [OF u_min_pos, of 2045 "\<bar>x\<bar>"] u_min_pos by (simp add: ulp_def)

lemma ulp_ge_min: "u_min \<le> ulp x"
  using ulp_from_ge [OF u_min_pos] by (simp add: ulp_def)

lemma ulp_pow: "\<exists>k\<le>2045. ulp x = 2 ^ k * u_min"
  using ulp_from_pow by (simp add: ulp_def)

lemma ulp_minus [simp]: "ulp (- x) = ulp x"
  by (simp add: ulp_def)

lemma ulp_abs [simp]: "ulp \<bar>x\<bar> = ulp x"
  by (simp add: ulp_def)

lemma ulp_upper: "ulp x \<noteq> 2 ^ 2045 * u_min \<Longrightarrow> \<bar>x\<bar> < ulp x * 2 ^ 53"
  using ulp_from_upper by (simp add: ulp_def)

lemma ulp_lower: "ulp x \<noteq> u_min \<Longrightarrow> ulp x * 2 ^ 52 \<le> \<bar>x\<bar>"
  using ulp_from_lower [OF u_min_pos] by (simp add: ulp_def)

lemma ulp_mono: "\<bar>x\<bar> \<le> \<bar>y\<bar> \<Longrightarrow> ulp x \<le> ulp y"
  using ulp_from_mono [OF u_min_pos] by (simp add: ulp_def)

lemma ulp_le_cap: "ulp x \<le> 2 ^ 2045 * u_min"
proof -
  from ulp_pow [of x] obtain k where k: "k \<le> 2045" "ulp x = 2 ^ k * u_min" by blast
  from k(1) have "(2::real) ^ k \<le> 2 ^ 2045" by (intro power_increasing) simp_all
  with u_min_pos k(2) show ?thesis by (simp add: mult_right_mono)
qed

text \<open>Two values of \<open>ulp\<close> are a power of two apart.\<close>

lemma ulp_ratio:
  assumes "ulp x < ulp y"
  shows "2 * ulp x \<le> ulp y"
proof -
  from ulp_pow [of x] obtain j where j: "ulp x = 2 ^ j * u_min" by blast
  from ulp_pow [of y] obtain k where k: "ulp y = 2 ^ k * u_min" by blast
  from assms j k u_min_pos have "(2::real) ^ j < 2 ^ k" by simp
  then have "j < k" by simp
  then have "Suc j \<le> k" by simp
  then have "(2::real) ^ Suc j \<le> 2 ^ k" by (intro power_increasing) simp_all
  with u_min_pos have "2 ^ Suc j * u_min \<le> 2 ^ k * u_min" by (simp add: mult_right_mono)
  with j k show ?thesis by simp
qed

lemma ulp_divides:
  assumes "ulp x \<le> ulp y"
  shows "\<exists>m::nat. ulp y = of_nat m * ulp x"
proof -
  from ulp_pow [of x] obtain j where j: "ulp x = 2 ^ j * u_min" by blast
  from ulp_pow [of y] obtain k where k: "ulp y = 2 ^ k * u_min" by blast
  from assms j k u_min_pos have "(2::real) ^ j \<le> 2 ^ k" by simp
  then have "j \<le> k" by simp
  then have "(2::real) ^ k = 2 ^ (k - j) * 2 ^ j" by (simp flip: power_add)
  with j k have "ulp y = of_nat (2 ^ (k - j)) * ulp x" by simp
  then show ?thesis by blast
qed

lemma rnd_val_minus: "rnd_val (- x) = - rnd_val x"
  by (simp add: rnd_val_def round_half_even_minus)

lemma rnd_val_zero [simp]: "rnd_val 0 = 0"
  using round_half_even_of_int [of 0] by (simp add: rnd_val_def)

lemma rnd_val_nonneg: "0 \<le> x \<Longrightarrow> 0 \<le> rnd_val x"
proof -
  assume "0 \<le> x"
  with ulp_pos [of x] have "of_int 0 \<le> x / ulp x" by simp
  then have "0 \<le> round_half_even (x / ulp x)" by (rule round_half_even_ge_int)
  with ulp_pos [of x] show ?thesis by (simp add: rnd_val_def)
qed

lemma rnd_val_nonpos: "x \<le> 0 \<Longrightarrow> rnd_val x \<le> 0"
  using rnd_val_nonneg [of "- x"] by (simp add: rnd_val_minus)

lemma rnd_val_half_ulp: "\<bar>rnd_val x - x\<bar> \<le> ulp x / 2"
proof -
  have "\<bar>of_int (round_half_even (x / ulp x)) - x / ulp x\<bar> \<le> 1 / 2"
    by (rule round_half_even_error)
  then have "\<bar>of_int (round_half_even (x / ulp x)) - x / ulp x\<bar> * ulp x \<le> 1 / 2 * ulp x"
    using ulp_pos [of x] by (intro mult_right_mono) simp_all
  moreover have "\<bar>of_int (round_half_even (x / ulp x)) - x / ulp x\<bar> * ulp x
      = \<bar>rnd_val x - x\<bar>"
  proof -
    have "\<bar>of_int (round_half_even (x / ulp x)) - x / ulp x\<bar> * \<bar>ulp x\<bar>
        = \<bar>(of_int (round_half_even (x / ulp x)) - x / ulp x) * ulp x\<bar>"
      by (simp only: abs_mult)
    also have "(of_int (round_half_even (x / ulp x)) - x / ulp x) * ulp x = rnd_val x - x"
      using ulp_pos [of x] by (simp add: rnd_val_def left_diff_distrib)
    finally show ?thesis using ulp_pos [of x] by simp
  qed
  ultimately show ?thesis by simp
qed

lemma on_grid_iff: "on_grid x \<longleftrightarrow> (\<exists>m::int. x = of_int m * ulp x)"
proof
  assume "on_grid x"
  then have "of_int \<lfloor>x / ulp x\<rfloor> * ulp x = x / ulp x * ulp x"
    by (simp only: on_grid_def)
  then have "x = of_int \<lfloor>x / ulp x\<rfloor> * ulp x"
    using ulp_pos [of x] by simp
  then show "\<exists>m::int. x = of_int m * ulp x" ..
next
  assume "\<exists>m::int. x = of_int m * ulp x"
  then obtain m :: int where "x = of_int m * ulp x" ..
  then have "x / ulp x = of_int m" using ulp_pos [of x] by (simp add: field_simps)
  then show "on_grid x" by (simp add: on_grid_def)
qed

lemma rnd_val_exact: "on_grid x \<Longrightarrow> rnd_val x = x"
proof -
  assume "on_grid x"
  then obtain m :: int where m: "x = of_int m * ulp x" by (auto simp: on_grid_iff)
  then have "x / ulp x = of_int m" using ulp_pos [of x] by (simp add: field_simps)
  with m show ?thesis by (simp add: rnd_val_def)
qed

lemma rnd_val_mono_nonneg:
  assumes "0 \<le> x" and "x \<le> y"
  shows "rnd_val x \<le> rnd_val y"
proof -
  from assms have "\<bar>x\<bar> \<le> \<bar>y\<bar>" by simp
  then have le: "ulp x \<le> ulp y" by (rule ulp_mono)
  show ?thesis
  proof (cases "ulp x = ulp y")
    case True
    from assms(2) ulp_pos [of y] have "x / ulp y \<le> y / ulp y" by (simp add: divide_right_mono)
    then have "round_half_even (x / ulp y) \<le> round_half_even (y / ulp y)"
      by (rule round_half_even_mono)
    then have "of_int (round_half_even (x / ulp y)) * ulp y
        \<le> of_int (round_half_even (y / ulp y)) * ulp y"
      using ulp_pos [of y] by (intro mult_right_mono) simp_all
    with True show ?thesis by (simp add: rnd_val_def)
  next
    case False
    with le have lt: "ulp x < ulp y" by simp
    then have two: "2 * ulp x \<le> ulp y" by (rule ulp_ratio)
    from lt ulp_le_cap [of y] have "ulp x \<noteq> 2 ^ 2045 * u_min" by simp
    then have "\<bar>x\<bar> < ulp x * 2 ^ 53" by (rule ulp_upper)
    with assms(1) ulp_pos [of x] have "x / ulp x \<le> of_int (2 ^ 53)"
      by (simp add: field_simps)
    then have "round_half_even (x / ulp x) \<le> 2 ^ 53" by (rule round_half_even_le_int)
    then have "(of_int (round_half_even (x / ulp x)) :: real) \<le> of_int (2 ^ 53)"
      by (simp only: of_int_le_iff)
    then have "of_int (round_half_even (x / ulp x)) * ulp x \<le> of_int (2 ^ 53) * ulp x"
      using ulp_pos [of x] by (intro mult_right_mono) simp_all
    then have a: "rnd_val x \<le> 2 ^ 53 * ulp x" by (simp add: rnd_val_def)
    from lt ulp_ge_min [of x] have "ulp y \<noteq> u_min" by simp
    then have "ulp y * 2 ^ 52 \<le> \<bar>y\<bar>" by (rule ulp_lower)
    with assms ulp_pos [of y] have "of_int (2 ^ 52) \<le> y / ulp y"
      by (simp add: field_simps)
    then have "2 ^ 52 \<le> round_half_even (y / ulp y)" by (rule round_half_even_ge_int)
    then have "(of_int (2 ^ 52) :: real) \<le> of_int (round_half_even (y / ulp y))"
      by (simp only: of_int_le_iff)
    then have "of_int (2 ^ 52) * ulp y \<le> of_int (round_half_even (y / ulp y)) * ulp y"
      using ulp_pos [of y] by (intro mult_right_mono) simp_all
    then have b: "2 ^ 52 * ulp y \<le> rnd_val y" by (simp add: rnd_val_def)
    have "(2::real) ^ 53 * ulp x = 2 ^ 52 * (2 * ulp x)" by simp
    also have "\<dots> \<le> 2 ^ 52 * ulp y" using two by (intro mult_left_mono) simp_all
    finally show ?thesis using a b by linarith
  qed
qed

lemma rnd_val_mono: "x \<le> y \<Longrightarrow> rnd_val x \<le> rnd_val y"
proof -
  assume le: "x \<le> y"
  consider "0 \<le> x" | "y \<le> 0" | "x < 0" "0 < y" by linarith
  then show ?thesis
  proof cases
    case 1
    from this le show ?thesis by (rule rnd_val_mono_nonneg)
  next
    case 2
    with le have "0 \<le> - y" "- y \<le> - x" by simp_all
    then have "rnd_val (- y) \<le> rnd_val (- x)" by (rule rnd_val_mono_nonneg)
    then show ?thesis by (simp add: rnd_val_minus)
  next
    case 3
    then have "rnd_val x \<le> 0" "0 \<le> rnd_val y"
      by (simp_all add: rnd_val_nonpos rnd_val_nonneg)
    then show ?thesis by simp
  qed
qed

lemma on_grid_minus: "on_grid x \<Longrightarrow> on_grid (- x)"
proof -
  assume "on_grid x"
  then obtain m :: int where "x = of_int m * ulp x" by (auto simp: on_grid_iff)
  then have "- x = of_int (- m) * ulp (- x)" by simp
  then show ?thesis unfolding on_grid_iff by blast
qed

lemma on_grid_abs: "on_grid x \<Longrightarrow> on_grid \<bar>x\<bar>"
  by (cases "0 \<le> x") (simp_all add: abs_if on_grid_minus)

lemma on_grid_zero [simp]: "on_grid 0"
  by (simp add: on_grid_def)

lemma rnd_val_on_grid: "on_grid (rnd_val x)"
proof -
  define m where "m = round_half_even (x / ulp x)"
  define y where "y = rnd_val x"
  have y: "y = of_int m * ulp x" by (simp add: y_def m_def rnd_val_def)
  have "on_grid y"
  proof (cases "ulp y \<le> ulp x")
    case True
    from ulp_divides [OF True] obtain n :: nat where "ulp x = of_nat n * ulp y" ..
    with y have "y = of_int (m * int n) * ulp y" by simp
    then show ?thesis unfolding on_grid_iff by blast
  next
    case False
    then have lt: "ulp x < ulp y" by simp
    then have two: "2 * ulp x \<le> ulp y" by (rule ulp_ratio)
    from lt ulp_ge_min [of x] have "ulp y \<noteq> u_min" by simp
    then have lo: "ulp y * 2 ^ 52 \<le> \<bar>y\<bar>" by (rule ulp_lower)
    from lt ulp_le_cap [of y] have "ulp x \<noteq> 2 ^ 2045 * u_min" by simp
    then have "\<bar>x\<bar> < ulp x * 2 ^ 53" by (rule ulp_upper)
    then have "x < ulp x * 2 ^ 53" "- (ulp x * 2 ^ 53) < x" by linarith+
    with ulp_pos [of x] have "x / ulp x \<le> of_int (2 ^ 53)" "of_int (- (2 ^ 53)) \<le> x / ulp x"
      by (simp_all add: field_simps)
    then have "m \<le> 2 ^ 53" "- (2 ^ 53) \<le> m"
      unfolding m_def by (simp_all only: round_half_even_le_int round_half_even_ge_int)
    then have "\<bar>m\<bar> \<le> 2 ^ 53" by simp
    then have "\<bar>(of_int m :: real)\<bar> \<le> of_int (2 ^ 53)"
      by (simp only: of_int_le_iff flip: of_int_abs)
    then have "\<bar>(of_int m :: real)\<bar> * ulp x \<le> of_int (2 ^ 53) * ulp x"
      using ulp_pos [of x] by (intro mult_right_mono) simp_all
    with y ulp_pos [of x] have hi: "\<bar>y\<bar> \<le> 2 ^ 53 * ulp x" by (simp add: abs_mult)
    have "(2::real) ^ 53 * ulp x = 2 ^ 52 * (2 * ulp x)" by simp
    also have "\<dots> \<le> 2 ^ 52 * ulp y" using two by (intro mult_left_mono) simp_all
    finally have "\<bar>y\<bar> = of_int (2 ^ 52) * ulp y" using lo hi by simp
    then have "y = of_int (2 ^ 52) * ulp y \<or> y = of_int (- (2 ^ 52)) * ulp y"
      by (cases "0 \<le> y") (simp_all add: abs_if)
    then show ?thesis unfolding on_grid_iff by blast
  qed
  then show ?thesis by (simp add: y_def)
qed

lemma rnd_val_idem: "rnd_val (rnd_val x) = rnd_val x"
  by (rule rnd_val_exact) (rule rnd_val_on_grid)

lemma min_grid_iff: "min_grid x \<longleftrightarrow> (\<exists>m::int. x = of_int m * u_min)"
proof
  assume "min_grid x"
  then have "of_int \<lfloor>x / u_min\<rfloor> * u_min = x / u_min * u_min"
    by (simp only: min_grid_def)
  then have "x = of_int \<lfloor>x / u_min\<rfloor> * u_min"
    using u_min_pos by simp
  then show "\<exists>m::int. x = of_int m * u_min" ..
next
  assume "\<exists>m::int. x = of_int m * u_min"
  then obtain m :: int where "x = of_int m * u_min" ..
  then have "x / u_min = of_int m" using u_min_pos by (simp add: field_simps)
  then show "min_grid x" by (simp add: min_grid_def)
qed

lemma on_grid_min_grid: "on_grid x \<Longrightarrow> min_grid x"
proof -
  assume "on_grid x"
  then obtain m :: int where m: "x = of_int m * ulp x" by (auto simp: on_grid_iff)
  from ulp_pow [of x] obtain k where "ulp x = 2 ^ k * u_min" by blast
  with m have "x = of_int (m * 2 ^ k) * u_min" by simp
  then show ?thesis unfolding min_grid_iff by blast
qed

lemma min_grid_add: "min_grid x \<Longrightarrow> min_grid y \<Longrightarrow> min_grid (x + y)"
proof -
  assume "min_grid x" "min_grid y"
  then obtain m n :: int where "x = of_int m * u_min" "y = of_int n * u_min"
    by (auto simp: min_grid_iff)
  then have "x + y = of_int (m + n) * u_min" by (simp add: distrib_right)
  then show ?thesis unfolding min_grid_iff by blast
qed

lemma min_grid_minus: "min_grid x \<Longrightarrow> min_grid (- x)"
proof -
  assume "min_grid x"
  then obtain m :: int where "x = of_int m * u_min" by (auto simp: min_grid_iff)
  then have "- x = of_int (- m) * u_min" by simp
  then show ?thesis unfolding min_grid_iff by blast
qed

lemma min_grid_diff: "min_grid x \<Longrightarrow> min_grid y \<Longrightarrow> min_grid (x - y)"
  using min_grid_add [of x "- y"] by (simp add: min_grid_minus)

lemma min_grid_zero [simp]: "min_grid 0"
  by (simp add: min_grid_def)

lemma min_grid_rnd_val: "min_grid (rnd_val x)"
  by (rule on_grid_min_grid) (rule rnd_val_on_grid)

text \<open>The error of one rounding.\<close>

lemma rnd_val_error: "\<bar>rnd_val x - x\<bar> \<le> \<bar>x\<bar> / 2 ^ 53 + u_min / 2"
proof (cases "ulp x = u_min")
  case True
  with rnd_val_half_ulp [of x] have "\<bar>rnd_val x - x\<bar> \<le> u_min / 2" by simp
  moreover have "0 \<le> \<bar>x\<bar> / 2 ^ 53" by simp
  ultimately show ?thesis by linarith
next
  case False
  then have "ulp x * 2 ^ 52 \<le> \<bar>x\<bar>" by (rule ulp_lower)
  then have "ulp x / 2 \<le> \<bar>x\<bar> / 2 ^ 53" by (simp add: field_simps)
  with rnd_val_half_ulp [of x] u_min_pos show ?thesis by linarith
qed

lemma rnd_val_grid_error:
  assumes "min_grid x"
  shows "\<bar>rnd_val x - x\<bar> \<le> \<bar>x\<bar> / 2 ^ 53"
proof (cases "ulp x = u_min")
  case True
  from assms obtain m :: int where "x = of_int m * u_min" by (auto simp: min_grid_iff)
  with True have "on_grid x" unfolding on_grid_iff by auto
  then show ?thesis by (simp add: rnd_val_exact)
next
  case False
  then have "ulp x * 2 ^ 52 \<le> \<bar>x\<bar>" by (rule ulp_lower)
  then have "ulp x / 2 \<le> \<bar>x\<bar> / 2 ^ 53" by (simp add: field_simps)
  with rnd_val_half_ulp [of x] show ?thesis by linarith
qed

lemma rnd_val_bounded:
  assumes "on_grid y" and "\<bar>z\<bar> \<le> \<bar>y\<bar>"
  shows "\<bar>rnd_val z\<bar> \<le> \<bar>y\<bar>"
proof -
  from assms(1) have "on_grid \<bar>y\<bar>" by (rule on_grid_abs)
  then have e: "rnd_val \<bar>y\<bar> = \<bar>y\<bar>" by (rule rnd_val_exact)
  from assms(2) have "z \<le> \<bar>y\<bar>" "- \<bar>y\<bar> \<le> z" by simp_all
  then have "rnd_val z \<le> rnd_val \<bar>y\<bar>" "rnd_val (- \<bar>y\<bar>) \<le> rnd_val z"
    by (simp_all add: rnd_val_mono)
  with e show ?thesis by (simp add: rnd_val_minus abs_le_iff)
qed

lemma rnd_Fin_iff: "rnd x = Fin y \<longleftrightarrow> y = rnd_val x \<and> \<bar>rnd_val x\<bar> < 2 ^ 1024"
  by (auto simp: rnd_def Let_def)

lemma rnd_PInf_iff: "rnd x = PInf \<longleftrightarrow> 2 ^ 1024 \<le> rnd_val x"
  by (auto simp: rnd_def Let_def)

lemma rnd_not_NaN [simp]: "rnd x \<noteq> NaN"
  by (simp add: rnd_def Let_def)

lemma rnd_nonneg_cases: "0 \<le> x \<Longrightarrow> rnd x = Fin (rnd_val x) \<or> rnd x = PInf"
  using rnd_val_nonneg [of x] by (auto simp: rnd_def Let_def)

lemma rnd_zero [simp]: "rnd 0 = Fin 0"
  by (simp add: rnd_def)

lemma rnd_bounded:
  assumes "on_grid y" and "\<bar>y\<bar> < 2 ^ 1024" and "\<bar>z\<bar> \<le> \<bar>y\<bar>"
  shows "rnd z = Fin (rnd_val z)"
proof -
  from assms(1,3) have "\<bar>rnd_val z\<bar> \<le> \<bar>y\<bar>" by (rule rnd_val_bounded)
  with assms(2) show ?thesis by (simp add: rnd_Fin_iff)
qed

lemma rnd_exact: "on_grid x \<Longrightarrow> \<bar>x\<bar> < 2 ^ 1024 \<Longrightarrow> rnd x = Fin x"
  by (simp add: rnd_Fin_iff rnd_val_exact)

lemma u_min_scale: "u_min * 2 ^ (j + 1022) * 2 ^ 52 = 2 ^ j"
proof -
  have "(2::real) ^ (j + 1022) * 2 ^ 52 = 2 ^ j * 2 ^ 1074"
    by (simp add: power_add)
  then have "u_min * (2 ^ (j + 1022) * 2 ^ 52) = u_min * (2 ^ j * 2 ^ 1074)"
    by (simp only:)
  then show ?thesis by (simp add: u_min_def)
qed

lemma ulp_eq:
  assumes "k \<le> 2045" and "k = 0 \<or> u_min * 2 ^ k * 2 ^ 52 \<le> \<bar>x\<bar>"
      and "k = 2045 \<or> \<bar>x\<bar> < u_min * 2 ^ k * 2 ^ 53"
  shows "ulp x = u_min * 2 ^ k"
  unfolding ulp_def using u_min_pos assms by (rule ulp_from_eq)

lemma ulp_normal:
  assumes "2 ^ j \<le> \<bar>x\<bar>" and "\<bar>x\<bar> < 2 * 2 ^ j" and "j \<le> 1023"
  shows "ulp x = 2 ^ j / 2 ^ 52"
proof -
  have s: "u_min * 2 ^ (j + 1022) * 2 ^ 52 = 2 ^ j" by (rule u_min_scale)
  then have s': "u_min * 2 ^ (j + 1022) * 2 ^ 53 = 2 * 2 ^ j" by simp
  from assms(3) have "j + 1022 \<le> 2045" by simp
  moreover from assms(1) s have "j + 1022 = 0 \<or> u_min * 2 ^ (j + 1022) * 2 ^ 52 \<le> \<bar>x\<bar>"
    by simp
  moreover from assms(2) s' have "j + 1022 = 2045 \<or> \<bar>x\<bar> < u_min * 2 ^ (j + 1022) * 2 ^ 53"
    by simp
  ultimately have "ulp x = u_min * 2 ^ (j + 1022)" by (rule ulp_eq)
  with s show ?thesis by (simp add: field_simps)
qed

lemma ulp_one: "ulp 1 = 1 / 2 ^ 52"
  using ulp_normal [of 0 1] by simp

lemma ulp_pow52: "ulp (2 ^ 52) = 1"
  using ulp_normal [of 52 "2 ^ 52"] by simp

lemma on_grid_of_int:
  assumes "\<bar>n\<bar> \<le> 2 ^ 52"
  shows "on_grid (of_int n)"
proof -
  from assms have "\<bar>(of_int n :: real)\<bar> \<le> of_int (2 ^ 52)"
    by (simp only: of_int_le_iff flip: of_int_abs)
  then have "\<bar>(of_int n :: real)\<bar> \<le> \<bar>(2 ^ 52 :: real)\<bar>" by simp
  then have "ulp (of_int n) \<le> ulp (2 ^ 52)" by (rule ulp_mono)
  from ulp_divides [OF this] obtain m :: nat where "ulp (2 ^ 52) = of_nat m * ulp (of_int n)"
    by blast
  then have "1 = of_nat m * ulp (of_int n)" unfolding ulp_pow52 .
  then have "of_int n = of_int (n * int m) * ulp (of_int n)"
    by (simp add: mult.assoc)
  then show ?thesis unfolding on_grid_iff by blast
qed

lemma rnd_of_int: "\<bar>n\<bar> \<le> 2 ^ 52 \<Longrightarrow> rnd (of_int n) = Fin (of_int n)"
proof -
  assume a: "\<bar>n\<bar> \<le> 2 ^ 52"
  then have "on_grid (of_int n)" by (rule on_grid_of_int)
  moreover from a have "\<bar>(of_int n :: real)\<bar> \<le> of_int (2 ^ 52)"
    by (simp only: of_int_le_iff flip: of_int_abs)
  then have "\<bar>(of_int n :: real)\<bar> < 2 ^ 1024"
    by (simp add: order_le_less_trans)
  ultimately show ?thesis by (rule rnd_exact)
qed

lemma rnd_val_of_int: "\<bar>n\<bar> \<le> 2 ^ 52 \<Longrightarrow> rnd_val (of_int n) = of_int n"
  by (rule rnd_val_exact) (rule on_grid_of_int)

lemma rnd_numeral [simp]:
  "rnd 1 = Fin 1" "rnd 2 = Fin 2" "rnd 100 = Fin 100"
  using rnd_of_int [of 1] rnd_of_int [of 2] rnd_of_int [of 100] by simp_all

text \<open>A decimal literal between 1/2 and 256 is a double in that range.\<close>

lemma ulp_half: "ulp (1 / 2) = 1 / 2 ^ 53"
proof -
  have a: "u_min * 2 ^ 1021 * 2 ^ 52 = 1 / 2" by (simp add: u_min_def)
  have b: "u_min * 2 ^ 1021 * 2 ^ 53 = 1" by (simp add: u_min_def)
  have "(1021 :: nat) \<le> 2045" by simp
  moreover have "(1021 :: nat) = 0 \<or> u_min * 2 ^ 1021 * 2 ^ 52 \<le> \<bar>1 / 2\<bar>"
    unfolding a by simp
  moreover have "(1021 :: nat) = 2045 \<or> \<bar>1 / 2\<bar> < u_min * 2 ^ 1021 * 2 ^ 53"
    unfolding b by simp
  ultimately have "ulp (1 / 2) = u_min * 2 ^ 1021"
    by (rule ulp_eq)
  also have "\<dots> = 1 / 2 ^ 53" by (simp add: u_min_def)
  finally show ?thesis .
qed

lemma on_grid_half: "on_grid (1 / 2)"
proof -
  have "(1 / 2 :: real) = of_int (2 ^ 52) * ulp (1 / 2)" by (simp add: ulp_half)
  then show ?thesis unfolding on_grid_iff by blast
qed

lemma rnd_literal:
  assumes "1 / 2 \<le> x" and "x \<le> 256"
  shows "rnd x = Fin (rnd_val x) \<and> 1 / 2 \<le> rnd_val x \<and> rnd_val x \<le> 256"
proof -
  from assms(1) have "rnd_val (1 / 2) \<le> rnd_val x" by (rule rnd_val_mono)
  then have lo: "1 / 2 \<le> rnd_val x" by (simp add: rnd_val_exact on_grid_half)
  have "rnd_val 256 = 256" using rnd_val_of_int [of 256] by simp
  with rnd_val_mono [OF assms(2)] have hi: "rnd_val x \<le> 256" by simp
  from lo hi have "\<bar>rnd_val x\<bar> < 2 ^ 1024" by simp
  with lo hi show ?thesis by (simp add: rnd_Fin_iff)
qed

lemma rnd_overflow:
  assumes "2 ^ 1024 \<le> x"
  shows "rnd x = PInf"
proof -
  have c: "u_min * 2 ^ 2045 * 2 ^ 52 = 2 ^ 1023" by (simp add: u_min_def)
  have "(2045 :: nat) \<le> 2045" by simp
  moreover have "(2045 :: nat) = 0 \<or> u_min * 2 ^ 2045 * 2 ^ 52 \<le> \<bar>2 ^ 1024\<bar>"
    unfolding c by simp
  moreover have "(2045 :: nat) = 2045 \<or> \<bar>2 ^ 1024\<bar> < u_min * 2 ^ 2045 * 2 ^ 53"
    by simp
  ultimately have "ulp (2 ^ 1024) = u_min * 2 ^ 2045"
    by (rule ulp_eq)
  then have "(2 ^ 1024 :: real) = of_int (2 ^ 53) * ulp (2 ^ 1024)"
    by (simp add: u_min_def)
  then have "on_grid (2 ^ 1024)" unfolding on_grid_iff by blast
  then have "rnd_val (2 ^ 1024) = 2 ^ 1024" by (rule rnd_val_exact)
  with rnd_val_mono [OF assms] show ?thesis by (simp add: rnd_PInf_iff)
qed

lemma pow_consts:
  "(2::real) ^ 20 = 1048576"
  "(2::real) ^ 28 = 268435456"
  "(2::real) ^ 29 = 536870912"
  "(2::real) ^ 32 = 4294967296"
  "(2::real) ^ 44 = 17592186044416"
  "(2::real) ^ 49 = 562949953421312"
  "(2::real) ^ 50 = 1125899906842624"
  "(2::real) ^ 51 = 2251799813685248"
  "(2::real) ^ 52 = 4503599627370496"
  "(2::real) ^ 53 = 9007199254740992"
  by simp_all

lemma scaled_le:
  fixes A :: real
  assumes "0 \<le> A" and "real n \<le> 2 ^ 20"
  shows "real n * A / 2 ^ 52 \<le> A / 2 ^ 32" and "real n * A / 2 ^ 49 \<le> A / 2 ^ 29"
    and "0 \<le> real n * A / 2 ^ 52" and "0 \<le> real n * A / 2 ^ 49"
proof -
  from assms have "real n * A \<le> 2 ^ 20 * A" by (intro mult_right_mono)
  then show "real n * A / 2 ^ 52 \<le> A / 2 ^ 32" "real n * A / 2 ^ 49 \<le> A / 2 ^ 29"
    by (simp_all add: field_simps)
  from assms show "0 \<le> real n * A / 2 ^ 52" "0 \<le> real n * A / 2 ^ 49" by simp_all
qed

lemma suc_scaled:
  fixes A x :: real
  shows "real (Suc n) * (A + x) / 2 ^ 52 = real n * A / 2 ^ 52 + real n * x / 2 ^ 52 + (A + x) / 2 ^ 52"
    and "real (Suc n) * (A + x) / 2 ^ 49 = real n * A / 2 ^ 49 + real n * x / 2 ^ 49 + (A + x) / 2 ^ 49"
  by (simp_all add: field_simps)

lemma sum_step_real:
  fixes a x A t :: real
  assumes "0 \<le> x" and "0 \<le> A" and "\<bar>a - A\<bar> \<le> real n * A / 2 ^ 52" and "real n \<le> 2 ^ 20"
      and "\<bar>t - (a + x)\<bar> \<le> (a + x) / 2 ^ 53"
  shows "\<bar>t - (A + x)\<bar> \<le> real (Suc n) * (A + x) / 2 ^ 52"
proof -
  note s = scaled_le [OF assms(2,4)]
  from assms(1) have "0 \<le> real n * x / 2 ^ 52" by simp
  with s(1) assms show ?thesis
    unfolding suc_scaled unfolding pow_consts by argo
qed

lemma comp_step_real:
  fixes a x A c d c' :: real
  assumes "0 \<le> x" and "0 \<le> A" and "\<bar>a - A\<bar> \<le> real n * A / 2 ^ 52" and "real n \<le> 2 ^ 20"
      and "\<bar>c\<bar> \<le> real n * A / 2 ^ 49" and "\<bar>d\<bar> \<le> (a + x) / 2 ^ 51"
      and "\<bar>c' - (c + d)\<bar> \<le> \<bar>c + d\<bar> / 2 ^ 53"
  shows "\<bar>c'\<bar> \<le> real (Suc n) * (A + x) / 2 ^ 49" and "\<bar>c + d\<bar> \<le> (A + x) / 2 ^ 28"
proof -
  note s = scaled_le [OF assms(2,4)]
  from assms(1) have nx: "0 \<le> real n * x / 2 ^ 49" by simp
  from s(1) assms(3) have a: "a \<le> 2 * A" unfolding pow_consts by argo
  with assms(1,6) have d: "\<bar>d\<bar> \<le> (A + x) / 2 ^ 50" unfolding pow_consts by argo
  with assms(5) have cd: "\<bar>c + d\<bar> \<le> real n * A / 2 ^ 49 + (A + x) / 2 ^ 50" unfolding pow_consts by argo
  with s(2) assms(1) show "\<bar>c + d\<bar> \<le> (A + x) / 2 ^ 28" unfolding pow_consts by argo
  from cd s(2) assms(1,2) have "\<bar>c + d\<bar> / 2 ^ 53 \<le> (A + x) / 2 ^ 51" unfolding pow_consts by argo
  with cd assms(7) nx show "\<bar>c'\<bar> \<le> real (Suc n) * (A + x) / 2 ^ 49"
    unfolding suc_scaled unfolding pow_consts by argo
qed

lemma two_sum_real:
  fixes p q t r d :: real
  assumes "0 \<le> p" and "0 \<le> q" and "p \<le> t" and "\<bar>t - (p + q)\<bar> \<le> (p + q) / 2 ^ 53"
      and "\<bar>r - (p - t)\<bar> \<le> \<bar>p - t\<bar> / 2 ^ 53" and "\<bar>d - (r + q)\<bar> \<le> \<bar>r + q\<bar> / 2 ^ 53"
  shows "\<bar>d\<bar> \<le> (p + q) / 2 ^ 51" and "\<bar>r + q\<bar> \<le> t" and "\<bar>p - t\<bar> \<le> t"
proof -
  from assms(1-4) have t1: "t \<le> 2 * (p + q)"
    unfolding pow_consts by argo
  from assms(1-4) have t2: "(p + q) / 2 \<le> t"
    unfolding pow_consts by argo
  note t = t1 t2
  from assms(1,3) show pt: "\<bar>p - t\<bar> \<le> t" unfolding pow_consts by argo
  with t assms(5) have r: "\<bar>r - (p - t)\<bar> \<le> (p + q) / 2 ^ 52" unfolding pow_consts by argo
  with assms(4) have rq: "\<bar>r + q\<bar> \<le> (p + q) / 2 ^ 52 + (p + q) / 2 ^ 53" unfolding pow_consts by argo
  with t assms(1,2) show "\<bar>r + q\<bar> \<le> t" unfolding pow_consts by argo
  from rq assms(1,2) have "\<bar>r + q\<bar> / 2 ^ 53 \<le> (p + q) / 2 ^ 53" unfolding pow_consts by argo
  with rq assms(6) show "\<bar>d\<bar> \<le> (p + q) / 2 ^ 51" unfolding pow_consts by argo
qed

lemma final_real:
  fixes f c A T :: real
  assumes "0 \<le> A" and "\<bar>f - A\<bar> \<le> real n * A / 2 ^ 52" and "real n \<le> 2 ^ 20"
      and "\<bar>c\<bar> \<le> real n * A / 2 ^ 49" and "\<bar>T - (f + c)\<bar> \<le> \<bar>f + c\<bar> / 2 ^ 53"
  shows "\<bar>T - A\<bar> \<le> A / 2 ^ 28" and "0 \<le> f + c"
proof -
  note s = scaled_le [OF assms(1,3)]
  from s assms show "0 \<le> f + c" unfolding pow_consts by argo
  from s assms(1,2,4) have "\<bar>f + c\<bar> \<le> 2 * A"
    unfolding pow_consts by argo
  then have "\<bar>f + c\<bar> / 2 ^ 53 \<le> A / 2 ^ 52"
    unfolding pow_consts by argo
  with s assms show "\<bar>T - A\<bar> \<le> A / 2 ^ 28"
    unfolding pow_consts by argo
qed

lemma nn_double_zero [simp]: "nn_double 0"
  by (simp add: nn_double_def)

lemma nn_double_rnd: "nn_double x \<Longrightarrow> rnd x = Fin x"
  by (simp add: nn_double_def rnd_exact)

lemma rnd_val_pow1023: "rnd_val (2 ^ 1023) = 2 ^ 1023"
proof -
  have "ulp (2 ^ 1023) = 2 ^ 1023 / 2 ^ 52"
    by (rule ulp_normal) simp_all
  then have "(2 ^ 1023 :: real) = of_int (2 ^ 52) * ulp (2 ^ 1023)" by simp
  then have "on_grid (2 ^ 1023)" unfolding on_grid_iff by blast
  then show ?thesis by (rule rnd_val_exact)
qed

lemma rnd_PInf_large:
  assumes "rnd x = PInf"
  shows "2 ^ 1023 \<le> x"
proof (rule ccontr)
  assume "\<not> 2 ^ 1023 \<le> x"
  then have "x \<le> 2 ^ 1023" by simp
  then have "rnd_val x \<le> rnd_val (2 ^ 1023)" by (rule rnd_val_mono)
  then have "rnd_val x \<le> 2 ^ 1023" by (simp only: rnd_val_pow1023)
  moreover from assms have "2 ^ 1024 \<le> rnd_val x" by (simp add: rnd_PInf_iff)
  ultimately show False by simp
qed

lemma half_large:
  fixes A x f :: real
  assumes "2 ^ 1023 \<le> f + x" and "f \<le> 2 * A" and "0 \<le> x"
  shows "2 ^ 1022 \<le> A + x"
proof -
  have "(2::real) ^ 1023 = 2 * 2 ^ 1022" by simp
  with assms show ?thesis by linarith
qed

lemma fadd_nn:
  assumes "nn_double a" and "nn_double x"
  shows "(fadd (Fin a) (Fin x) = PInf \<and> 2 ^ 1023 \<le> a + x)
       \<or> (fadd (Fin a) (Fin x) = Fin (rnd_val (a + x)) \<and> nn_double (rnd_val (a + x))
           \<and> a \<le> rnd_val (a + x) \<and> x \<le> rnd_val (a + x)
           \<and> \<bar>rnd_val (a + x) - (a + x)\<bar> \<le> (a + x) / 2 ^ 53)"
proof -
  from assms have nn: "0 \<le> a" "0 \<le> x" "on_grid a" "on_grid x"
    by (simp_all add: nn_double_def)
  then have s: "0 \<le> a + x" by simp
  show ?thesis
  proof (cases "fadd (Fin a) (Fin x) = PInf")
    case True
    then have "rnd (a + x) = PInf" by simp
    then have "2 ^ 1023 \<le> a + x" by (rule rnd_PInf_large)
    with True show ?thesis by blast
  next
    case False
    with rnd_nonneg_cases [OF s] have f: "rnd (a + x) = Fin (rnd_val (a + x))" by simp
    then have lt: "\<bar>rnd_val (a + x)\<bar> < 2 ^ 1024" by (simp add: rnd_Fin_iff)
    from s have "0 \<le> rnd_val (a + x)" by (rule rnd_val_nonneg)
    with lt have g: "nn_double (rnd_val (a + x))"
      by (simp add: nn_double_def rnd_val_on_grid)
    from nn have "rnd_val a \<le> rnd_val (a + x)" "rnd_val x \<le> rnd_val (a + x)"
      by (simp_all add: rnd_val_mono)
    with nn have le: "a \<le> rnd_val (a + x)" "x \<le> rnd_val (a + x)"
      by (simp_all add: rnd_val_exact)
    from nn have "min_grid (a + x)" by (simp add: min_grid_add on_grid_min_grid)
    from rnd_val_grid_error [OF this] s
    have "\<bar>rnd_val (a + x) - (a + x)\<bar> \<le> (a + x) / 2 ^ 53" by simp
    with f g le show ?thesis by simp
  qed
qed

lemma sum_inv_step:
  assumes "sum_inv n A d" and "nn_double x" and "0 \<le> A" and "real n \<le> 2 ^ 20"
  shows "sum_inv (Suc n) (A + x) (fadd d (Fin x))"
proof (cases d)
  case (Fin f)
  with assms(1) have f: "nn_double f" "\<bar>f - A\<bar> \<le> real n * A / 2 ^ 52"
    by (simp_all add: sum_inv_def)
  from assms(2) have x: "0 \<le> x" by (simp add: nn_double_def)
  note sc = scaled_le [OF assms(3,4)]
  from sc(1) f(2) assms(3) have f2: "f \<le> 2 * A" unfolding pow_consts by argo
  from fadd_nn [OF f(1) assms(2)] show ?thesis
  proof
    assume h: "fadd (Fin f) (Fin x) = PInf \<and> 2 ^ 1023 \<le> f + x"
    then have "2 ^ 1022 \<le> A + x" using f2 x by (intro half_large) simp_all
    with h Fin show ?thesis by (simp add: sum_inv_def)
  next
    assume h: "fadd (Fin f) (Fin x) = Fin (rnd_val (f + x)) \<and> nn_double (rnd_val (f + x))
           \<and> f \<le> rnd_val (f + x) \<and> x \<le> rnd_val (f + x)
           \<and> \<bar>rnd_val (f + x) - (f + x)\<bar> \<le> (f + x) / 2 ^ 53"
    then have "\<bar>rnd_val (f + x) - (f + x)\<bar> \<le> (f + x) / 2 ^ 53" by simp
    with x assms(3) f(2) assms(4)
    have "\<bar>rnd_val (f + x) - (A + x)\<bar> \<le> real (Suc n) * (A + x) / 2 ^ 52"
      by (rule sum_step_real)
    with h Fin show ?thesis by (simp add: sum_inv_def)
  qed
next
  case PInf
  with assms(1) have "2 ^ 1022 \<le> A" by (simp add: sum_inv_def)
  moreover from assms(2) have "0 \<le> x" by (simp add: nn_double_def)
  ultimately have "2 ^ 1022 \<le> A + x" by linarith
  with PInf show ?thesis by (simp add: sum_inv_def)
next
  case NInf
  with assms(1) show ?thesis by (simp add: sum_inv_def)
next
  case NaN
  with assms(1) show ?thesis by (simp add: sum_inv_def)
qed

lemma sum_inv_foldl:
  assumes "list_all nn_double xs" and "sum_inv n A d" and "0 \<le> A"
      and "real (n + length xs) \<le> 2 ^ 20"
  shows "sum_inv (n + length xs) (A + sum_list xs) (foldl fadd d (map Fin xs))"
  using assms
proof (induction xs arbitrary: n A d)
  case Nil
  then show ?case by simp
next
  case (Cons x xs)
  from Cons.prems have x: "nn_double x" and rest: "list_all nn_double xs" by simp_all
  from x have x0: "0 \<le> x" by (simp add: nn_double_def)
  from Cons.prems(4) have n: "real n \<le> 2 ^ 20" by simp
  from Cons.prems(2) x Cons.prems(3) n
  have "sum_inv (Suc n) (A + x) (fadd d (Fin x))" by (rule sum_inv_step)
  moreover from x0 Cons.prems(3) have "0 \<le> A + x" by simp
  moreover from Cons.prems(4) have "real (Suc n + length xs) \<le> 2 ^ 20" by simp
  ultimately have "sum_inv (Suc n + length xs) (A + x + sum_list xs)
      (foldl fadd (fadd d (Fin x)) (map Fin xs))"
    by (intro Cons.IH rest)
  then show ?case by (simp add: add.assoc)
qed

lemma two_sum_fp:
  assumes "nn_double p" and "nn_double q" and "nn_double (rnd_val (p + q))"
      and "p \<le> rnd_val (p + q)"
      and "\<bar>rnd_val (p + q) - (p + q)\<bar> \<le> (p + q) / 2 ^ 53"
  shows "\<exists>d. fadd (fsub (Fin p) (Fin (rnd_val (p + q)))) (Fin q) = Fin d \<and> min_grid d
           \<and> \<bar>d\<bar> \<le> (p + q) / 2 ^ 51"
proof -
  define t where "t = rnd_val (p + q)"
  define r where "r = rnd_val (p - t)"
  define d where "d = rnd_val (r + q)"
  from assms have nn: "0 \<le> p" "0 \<le> q" "on_grid p" "on_grid q" "on_grid t" "0 \<le> t"
    "t < 2 ^ 1024"
    by (simp_all add: nn_double_def t_def)
  from nn have "min_grid (p - t)" by (simp add: min_grid_diff on_grid_min_grid)
  then have e1: "\<bar>r - (p - t)\<bar> \<le> \<bar>p - t\<bar> / 2 ^ 53"
    unfolding r_def by (rule rnd_val_grid_error)
  from nn have "min_grid (r + q)" by (simp add: r_def min_grid_add min_grid_rnd_val on_grid_min_grid)
  then have e2: "\<bar>d - (r + q)\<bar> \<le> \<bar>r + q\<bar> / 2 ^ 53"
    unfolding d_def by (rule rnd_val_grid_error)
  from assms(4,5) have pt: "p \<le> t" and e0: "\<bar>t - (p + q)\<bar> \<le> (p + q) / 2 ^ 53"
    by (simp_all add: t_def)
  note ts = two_sum_real [OF nn(1,2) pt e0 e1 e2]
  from nn have tt: "\<bar>t\<bar> < 2 ^ 1024" by simp
  from ts(3) nn have "\<bar>p - t\<bar> \<le> \<bar>t\<bar>" by simp
  with nn(5) tt have "rnd (p - t) = Fin r" unfolding r_def by (rule rnd_bounded)
  then have s: "fsub (Fin p) (Fin t) = Fin r" by (simp add: fsub_def)
  from ts(2) nn have "\<bar>r + q\<bar> \<le> \<bar>t\<bar>" by simp
  with nn(5) tt have "rnd (r + q) = Fin d" unfolding d_def by (rule rnd_bounded)
  with s have "fadd (fsub (Fin p) (Fin t)) (Fin q) = Fin d" by simp
  moreover have "min_grid d" by (simp add: d_def min_grid_rnd_val)
  ultimately show ?thesis using ts(1) unfolding t_def by blast
qed

lemma cs_inv_step:
  assumes "cs_inv n A fc" and "nn_double x" and "0 \<le> A" and "real n \<le> 2 ^ 20"
  shows "cs_inv (Suc n) (A + x) (cs_add fc (Fin x))"
proof -
  obtain f0 c0 where fc: "fc = (f0, c0)" by (cases fc)
  show ?thesis
  proof (cases f0)
    case PInf
    with fc assms(1) have "2 ^ 1022 \<le> A" by (simp add: cs_inv_def)
    moreover from assms(2) have "0 \<le> x" by (simp add: nn_double_def)
    ultimately have "2 ^ 1022 \<le> A + x" by linarith
    with PInf fc show ?thesis by (simp add: cs_inv_def Let_def)
  next
    case NInf
    with fc assms(1) show ?thesis by (simp add: cs_inv_def)
  next
    case NaN
    with fc assms(1) show ?thesis by (simp add: cs_inv_def)
  next
    case (Fin f)
    with fc assms(1) obtain c where c0: "c0 = Fin c"
      by (cases c0) (simp_all add: cs_inv_def)
    with fc Fin assms(1) have inv: "nn_double f" "\<bar>f - A\<bar> \<le> real n * A / 2 ^ 52"
      "min_grid c" "\<bar>c\<bar> \<le> real n * A / 2 ^ 49"
      by (simp_all add: cs_inv_def)
    from assms(2) inv(1) have x: "0 \<le> x" and f0: "0 \<le> f" by (simp_all add: nn_double_def)
    note sc0 = scaled_le [OF assms(3,4)]
    from sc0(1) inv(2) assms(3) have f2: "f \<le> 2 * A" unfolding pow_consts by argo
    from fadd_nn [OF inv(1) assms(2)] show ?thesis
    proof
      assume h: "fadd (Fin f) (Fin x) = PInf \<and> 2 ^ 1023 \<le> f + x"
      then have "2 ^ 1022 \<le> A + x" using f2 x by (intro half_large) simp_all
      with h fc Fin c0 show ?thesis by (simp add: cs_inv_def Let_def)
    next
      assume h: "fadd (Fin f) (Fin x) = Fin (rnd_val (f + x)) \<and> nn_double (rnd_val (f + x))
           \<and> f \<le> rnd_val (f + x) \<and> x \<le> rnd_val (f + x)
           \<and> \<bar>rnd_val (f + x) - (f + x)\<bar> \<le> (f + x) / 2 ^ 53"
      define t where "t = rnd_val (f + x)"
      from h have t: "fadd (Fin f) (Fin x) = Fin t" "nn_double t" "f \<le> t" "x \<le> t"
        "\<bar>t - (f + x)\<bar> \<le> (f + x) / 2 ^ 53"
        by (simp_all add: t_def)
      have "\<exists>d. (if fle (fabs (Fin x)) (fabs (Fin f))
                 then fadd (fsub (Fin f) (Fin t)) (Fin x)
                 else fadd (fsub (Fin x) (Fin t)) (Fin f)) = Fin d
              \<and> min_grid d \<and> \<bar>d\<bar> \<le> (f + x) / 2 ^ 51"
      proof (cases "fle (fabs (Fin x)) (fabs (Fin f))")
        case True
        from two_sum_fp [OF inv(1) assms(2)] t True show ?thesis
          by (simp add: t_def)
      next
        case False
        from two_sum_fp [OF assms(2) inv(1)] t False show ?thesis
          by (simp add: t_def add.commute)
      qed
      then obtain d where d: "(if fle (fabs (Fin x)) (fabs (Fin f))
                 then fadd (fsub (Fin f) (Fin t)) (Fin x)
                 else fadd (fsub (Fin x) (Fin t)) (Fin f)) = Fin d"
        "min_grid d" "\<bar>d\<bar> \<le> (f + x) / 2 ^ 51"
        by blast
      define c' where "c' = rnd_val (c + d)"
      from inv(3) d(2) have "min_grid (c + d)" by (rule min_grid_add)
      then have e: "\<bar>c' - (c + d)\<bar> \<le> \<bar>c + d\<bar> / 2 ^ 53"
        unfolding c'_def by (rule rnd_val_grid_error)
      note cs = comp_step_real [OF x assms(3) inv(2) assms(4) inv(4) d(3) e]
      note sc = scaled_le [OF assms(3,4)]
      from sc(1) inv(2) t(5) x assms(3) f0 have "(A + x) / 2 ^ 28 \<le> t"
        unfolding pow_consts by argo
      with cs(2) t(2) have "\<bar>c + d\<bar> \<le> \<bar>t\<bar>" by (simp add: nn_double_def)
      moreover from t(2) have "on_grid t" "\<bar>t\<bar> < 2 ^ 1024" by (simp_all add: nn_double_def)
      ultimately have "rnd (c + d) = Fin c'"
        unfolding c'_def by (intro rnd_bounded)
      then have c': "fadd (Fin c) (Fin d) = Fin c'" by simp
      have "\<bar>t - (A + x)\<bar> \<le> real (Suc n) * (A + x) / 2 ^ 52"
        using x assms(3) inv(2) assms(4) t(5) by (rule sum_step_real)
      moreover have "min_grid c'" by (simp add: c'_def min_grid_rnd_val)
      moreover have "cs_add fc (Fin x) = (Fin t, Fin c')"
        using fc Fin c0 t(1) d(1) c' by (auto simp: Let_def split: if_splits)
      ultimately show ?thesis using t(2) cs(1) by (simp add: cs_inv_def)
    qed
  qed
qed

lemma cs_inv_foldl:
  assumes "list_all nn_double xs" and "cs_inv n A fc" and "0 \<le> A"
      and "real (n + length xs) \<le> 2 ^ 20"
  shows "cs_inv (n + length xs) (A + sum_list xs) (foldl cs_add fc (map Fin xs))"
  using assms
proof (induction xs arbitrary: n A fc)
  case Nil
  then show ?case by simp
next
  case (Cons x xs)
  from Cons.prems have x: "nn_double x" and rest: "list_all nn_double xs" by simp_all
  from x have x0: "0 \<le> x" by (simp add: nn_double_def)
  from Cons.prems(4) have n: "real n \<le> 2 ^ 20" by simp
  from Cons.prems(2) x Cons.prems(3) n
  have "cs_inv (Suc n) (A + x) (cs_add fc (Fin x))" by (rule cs_inv_step)
  moreover from x0 Cons.prems(3) have "0 \<le> A + x" by simp
  moreover from Cons.prems(4) have "real (Suc n + length xs) \<le> 2 ^ 20" by simp
  ultimately have "cs_inv (Suc n + length xs) (A + x + sum_list xs)
      (foldl cs_add (cs_add fc (Fin x)) (map Fin xs))"
    by (intro Cons.IH rest)
  then show ?case by (simp add: add.assoc)
qed

lemma cs_result_inv:
  assumes "cs_inv n A fc" and "0 \<le> A" and "real n \<le> 2 ^ 20"
  shows "(cs_result fc = PInf \<and> 2 ^ 1022 \<le> A)
       \<or> (\<exists>T. cs_result fc = Fin T \<and> 0 \<le> T \<and> on_grid T \<and> \<bar>T - A\<bar> \<le> A / 2 ^ 28)"
proof -
  obtain f0 c0 where fc: "fc = (f0, c0)" by (cases fc)
  show ?thesis
  proof (cases f0)
    case PInf
    with fc assms(1) have "2 ^ 1022 \<le> A" by (simp add: cs_inv_def)
    with PInf fc show ?thesis by (cases c0) (simp_all add: cs_result_def is_finite_def)
  next
    case NInf
    with fc assms(1) show ?thesis by (simp add: cs_inv_def)
  next
    case NaN
    with fc assms(1) show ?thesis by (simp add: cs_inv_def)
  next
    case (Fin f)
    with fc assms(1) obtain c where c0: "c0 = Fin c"
      by (cases c0) (simp_all add: cs_inv_def)
    with fc Fin assms(1) have inv: "nn_double f" "\<bar>f - A\<bar> \<le> real n * A / 2 ^ 52"
      "min_grid c" "\<bar>c\<bar> \<le> real n * A / 2 ^ 49"
      by (simp_all add: cs_inv_def)
    note sc = scaled_le [OF assms(2,3)]
    show ?thesis
    proof (cases "c = 0")
      case True
      from sc(1) inv(2) assms(2) have "\<bar>f - A\<bar> \<le> A / 2 ^ 28" unfolding pow_consts by argo
      with True fc Fin c0 inv(1) show ?thesis
        by (simp add: cs_result_def nn_double_def)
    next
      case False
      define T where "T = rnd_val (f + c)"
      from inv(1,3) have "min_grid (f + c)"
        by (simp add: min_grid_add on_grid_min_grid nn_double_def)
      then have e: "\<bar>T - (f + c)\<bar> \<le> \<bar>f + c\<bar> / 2 ^ 53"
        unfolding T_def by (rule rnd_val_grid_error)
      note fin = final_real [OF assms(2) inv(2) assms(3) inv(4) e]
      from fin(2) have "0 \<le> T" unfolding T_def by (rule rnd_val_nonneg)
      moreover have "on_grid T" by (simp add: T_def rnd_val_on_grid)
      moreover from False fc Fin c0 have "cs_result fc = rnd (f + c)"
        by (simp add: cs_result_def is_finite_def)
      moreover have "rnd (f + c) = PInf \<longrightarrow> 2 ^ 1022 \<le> A"
      proof
        assume "rnd (f + c) = PInf"
        then have "2 ^ 1023 \<le> f + c" by (rule rnd_PInf_large)
        moreover from sc assms(2) inv(2,4) have "f + c \<le> 2 * A" unfolding pow_consts by argo
        ultimately show "2 ^ 1022 \<le> A" using half_large [of f 0 A] by simp
      qed
      moreover note rnd_nonneg_cases [OF fin(2)] fin(1)
      ultimately show ?thesis unfolding T_def by auto
    qed
  qed
qed

lemma py_sum_fp_spec:
  assumes "list_all nn_double xs" and "real (length xs) \<le> 2 ^ 20"
  shows "(py_sum_fp alg (map Fin xs) = PInf \<and> 2 ^ 1022 \<le> sum_list xs)
       \<or> (\<exists>T. py_sum_fp alg (map Fin xs) = Fin T \<and> 0 \<le> T \<and> on_grid T
              \<and> \<bar>T - sum_list xs\<bar> \<le> sum_list xs / 2 ^ 28)"
proof -
  from assms(1) have s0: "0 \<le> sum_list xs"
    by (induction xs) (auto simp: nn_double_def)
  show ?thesis
  proof (cases alg)
    case Plain
    have "sum_inv 0 0 (Fin 0)" by (simp add: sum_inv_def)
    from sum_inv_foldl [OF assms(1) this] assms(2)
    have inv: "sum_inv (length xs) (sum_list xs) (sum_plain (map Fin xs))"
      by (simp add: sum_plain_def)
    note sc = scaled_le [OF s0 assms(2)]
    show ?thesis
    proof (cases "sum_plain (map Fin xs)")
      case (Fin T)
      with inv have t: "nn_double T" "\<bar>T - sum_list xs\<bar> \<le> real (length xs) * sum_list xs / 2 ^ 52"
        by (simp_all add: sum_inv_def)
      from sc(1) t(2) s0 have "\<bar>T - sum_list xs\<bar> \<le> sum_list xs / 2 ^ 28"
        unfolding pow_consts by argo
      with t(1) Fin Plain show ?thesis by (simp add: nn_double_def)
    next
      case PInf
      with inv have "2 ^ 1022 \<le> sum_list xs" by (simp add: sum_inv_def)
      with PInf Plain show ?thesis by simp
    next
      case NInf
      with inv show ?thesis by (simp add: sum_inv_def)
    next
      case NaN
      with inv show ?thesis by (simp add: sum_inv_def)
    qed
  next
    case Compensated
    show ?thesis
    proof (cases xs)
      case Nil
      with Compensated show ?thesis by simp
    next
      case (Cons x ys)
      with assms have x: "nn_double x" and ys: "list_all nn_double ys"
        and len: "real (0 + length ys) \<le> 2 ^ 20"
        by simp_all
      from x have x0: "0 \<le> x" by (simp add: nn_double_def)
      from x have "cs_inv 0 x (Fin x, Fin 0)" by (simp add: cs_inv_def)
      from cs_inv_foldl [OF ys this x0 len]
      have inv: "cs_inv (length ys) (x + sum_list ys) (foldl cs_add (Fin x, Fin 0) (map Fin ys))"
        by simp
      from x0 ys have "0 \<le> x + sum_list ys"
        by (induction ys) (auto simp: nn_double_def)
      from cs_result_inv [OF inv this] len Cons x Compensated show ?thesis
        by (simp add: nn_double_rnd)
    qed
  qed
qed

lemma lit_Fin:
  assumes "1 / 2 \<le> c" and "c \<le> 256"
  shows "lit c = Fin (rnd_val c)" and "1 / 2 \<le> rnd_val c" and "rnd_val c \<le> 256"
  using rnd_literal [OF assms] by (simp_all add: lit_def)

lemma nn_or_inf_weak: "nn_or_inf d \<Longrightarrow> weak_nn d"
  by (cases d) (simp_all add: nn_or_inf_def weak_nn_def nn_double_def)

lemma finite_nonneg_weak: "finite_nonneg d \<Longrightarrow> weak_nn d"
  by (cases d) (simp_all add: finite_nonneg_def weak_nn_def)

lemma nn_or_inf_rnd: "0 \<le> x \<Longrightarrow> nn_or_inf (rnd x)"
proof -
  assume x: "0 \<le> x"
  from rnd_nonneg_cases [OF x] show ?thesis
  proof
    assume f: "rnd x = Fin (rnd_val x)"
    then have "\<bar>rnd_val x\<bar> < 2 ^ 1024" by (simp add: rnd_Fin_iff)
    with rnd_val_nonneg [OF x] f show ?thesis
      by (simp add: nn_or_inf_def nn_double_def rnd_val_on_grid)
  next
    assume "rnd x = PInf"
    then show ?thesis by (simp add: nn_or_inf_def)
  qed
qed

lemma fadd_weak: "weak_nn a \<Longrightarrow> weak_nn b \<Longrightarrow> nn_or_inf (fadd a b)"
  by (cases a; cases b) (simp_all add: weak_nn_def nn_or_inf_rnd, simp_all add: nn_or_inf_def)

lemma fmul_weak_lit:
  assumes "weak_nn a" and "1 / 2 \<le> c" and "c \<le> 256"
  shows "nn_or_inf (fmul a (lit c))"
proof -
  note l = lit_Fin [OF assms(2,3)]
  from l(2) have p: "0 < rnd_val c" by simp
  show ?thesis
  proof (cases a)
    case (Fin x)
    with assms(1) have "0 \<le> x" by (simp add: weak_nn_def)
    with p have "0 \<le> x * rnd_val c" by simp
    then have "nn_or_inf (rnd (x * rnd_val c))" by (rule nn_or_inf_rnd)
    with Fin l(1) show ?thesis by simp
  next
    case PInf
    with l(1) p show ?thesis by (simp add: signed_inf_def nn_or_inf_def)
  next
    case NInf
    with assms(1) show ?thesis by (simp add: weak_nn_def)
  next
    case NaN
    with assms(1) show ?thesis by (simp add: weak_nn_def)
  qed
qed

lemma fmul_finite_nonneg:
  assumes "finite_nonneg a" and "finite_nonneg b"
  shows "nn_or_inf (fmul a b)"
proof -
  from assms obtain x y where "a = Fin x" "b = Fin y" "0 \<le> x" "0 \<le> y"
    by (cases a; cases b) (simp_all add: finite_nonneg_def)
  then show ?thesis by (simp add: nn_or_inf_rnd)
qed

lemma py_max_nn: "a \<noteq> NaN \<Longrightarrow> nn_or_inf (py_max (Fin 0) (fadd (Fin s) a))"
proof (cases a)
  case (Fin y)
  show ?thesis
  proof (cases "rnd (s + y)")
    case (Fin z)
    then have z: "\<bar>z\<bar> < 2 ^ 1024" "z = rnd_val (s + y)" by (simp_all add: rnd_Fin_iff)
    from z(1) have "z < 2 ^ 1024" by (simp only: abs_less_iff)
    moreover from z(2) have "on_grid z" by (simp only: rnd_val_on_grid)
    ultimately have "0 < z \<longrightarrow> nn_double z" by (simp only: nn_double_def) simp
    with Fin \<open>a = Fin y\<close> show ?thesis by (simp add: py_max_def nn_or_inf_def)
  next
    case PInf
    with \<open>a = Fin y\<close> show ?thesis by (simp add: py_max_def nn_or_inf_def)
  next
    case NInf
    with \<open>a = Fin y\<close> show ?thesis by (simp add: py_max_def nn_or_inf_def)
  next
    case NaN
    then show ?thesis by simp
  qed
next
  case PInf
  then show ?thesis by (simp add: py_max_def nn_or_inf_def)
next
  case NInf
  then show ?thesis by (simp add: py_max_def nn_or_inf_def)
next
  case NaN
  assume "a \<noteq> NaN"
  with NaN show ?thesis by simp
qed

lemma factor_finite_nonneg: "finite_nonneg (fdiv (fmul (Fin 2) MW_FEO_fp) MW_FE2O3_fp)"
proof -
  have a: "MW_FEO_fp = Fin (rnd_val 71.844)" "1 / 2 \<le> rnd_val 71.844" "rnd_val 71.844 \<le> 256"
    unfolding MW_FEO_fp_def by (rule lit_Fin; simp)+
  have b: "MW_FE2O3_fp = Fin (rnd_val 159.69)" "1 / 2 \<le> rnd_val 159.69"
    "rnd_val 159.69 \<le> 256"
    unfolding MW_FE2O3_fp_def by (rule lit_Fin; simp)+
  define m where "m = rnd_val 71.844"
  define d where "d = rnd_val 159.69"
  have "rnd_val 512 = 512" using rnd_val_of_int [of 512] by simp
  moreover from a have "2 * m \<le> 512" by (simp add: m_def)
  ultimately have "rnd_val (2 * m) \<le> 512" using rnd_val_mono [of "2 * m" 512] by simp
  moreover from a have "0 \<le> rnd_val (2 * m)" by (simp add: m_def rnd_val_nonneg)
  ultimately have n: "rnd (2 * m) = Fin (rnd_val (2 * m))" "0 \<le> rnd_val (2 * m)"
    "rnd_val (2 * m) \<le> 512"
    by (simp_all add: rnd_Fin_iff)
  define n where "n = rnd_val (2 * m)"
  from n b have q: "0 \<le> n / d" "n / d \<le> 1024"
    by (simp_all add: n_def d_def field_simps)
  have "rnd_val 1024 = 1024" using rnd_val_of_int [of 1024] by simp
  with q rnd_val_mono [of "n / d" 1024] have "rnd_val (n / d) \<le> 1024" by simp
  moreover from q have "0 \<le> rnd_val (n / d)" by (simp add: rnd_val_nonneg)
  ultimately have r: "rnd (n / d) = Fin (rnd_val (n / d))" "0 \<le> rnd_val (n / d)"
    by (simp_all add: rnd_Fin_iff)
  from n(1) have e1: "fmul (Fin 2) (Fin m) = Fin n" by (simp add: n_def)
  from r(1) have e2: "fdiv (Fin n) (Fin d) = Fin (rnd_val (n / d))" by simp
  have "fdiv (fmul (Fin 2) MW_FEO_fp) MW_FE2O3_fp = Fin (rnd_val (n / d))"
    unfolding a(1) b(1) unfolding m_def [symmetric] d_def [symmetric] e1 e2 ..
  with r(2) show ?thesis by (simp add: finite_nonneg_def)
qed

lemma speciate_weak:
  assumes "finite_nonneg FeO" and "finite_nonneg Fe2O3"
  shows "weak_nn (speciate_FeO_fp FeO Fe2O3)"
  using assms fmul_finite_nonneg [OF assms(2) factor_finite_nonneg]
  by (simp add: speciate_FeO_fp_def nn_or_inf_weak finite_nonneg_weak)

lemma lit_two: "lit 2 = Fin 2"
  by (simp add: lit_def)

lemma raw_fp_nn:
  assumes "non_negative_fp oxides"
  shows "list_all nn_or_inf (map snd (raw_fp oxides))"
proof -
  from assms have g: "finite_nonneg (get_oxide_fp oxides ''SiO2'')"
    "finite_nonneg (get_oxide_fp oxides ''Al2O3'')"
    "finite_nonneg (get_oxide_fp oxides ''FeO'')" "finite_nonneg (get_oxide_fp oxides ''Fe2O3'')"
    "finite_nonneg (get_oxide_fp oxides ''MgO'')" "finite_nonneg (get_oxide_fp oxides ''CaO'')"
    "finite_nonneg (get_oxide_fp oxides ''Na2O'')" "finite_nonneg (get_oxide_fp oxides ''K2O'')"
    "finite_nonneg (get_oxide_fp oxides ''TiO2'')" "finite_nonneg (get_oxide_fp oxides ''P2O5'')"
    by (simp_all add: non_negative_fp_def OXIDES_def)
  note w = g [THEN finite_nonneg_weak]
  have two: "finite_nonneg (lit 2)" by (simp add: lit_two finite_nonneg_def)
  have inner: "nn_or_inf (fadd (fadd (fmul (get_oxide_fp oxides ''Al2O3'') (lit 2))
      (get_oxide_fp oxides ''CaO'')) (get_oxide_fp oxides ''MgO''))"
    by (intro fadd_weak nn_or_inf_weak fmul_finite_nonneg g two w)
  then have "fneg (fadd (fadd (fmul (get_oxide_fp oxides ''Al2O3'') (lit 2))
      (get_oxide_fp oxides ''CaO'')) (get_oxide_fp oxides ''MgO'')) \<noteq> NaN"
    by (cases "fadd (fadd (fmul (get_oxide_fp oxides ''Al2O3'') (lit 2))
      (get_oxide_fp oxides ''CaO'')) (get_oxide_fp oxides ''MgO'')") (simp_all add: nn_or_inf_def)
  moreover from g(1) obtain s where "get_oxide_fp oxides ''SiO2'' = Fin s"
    by (cases "get_oxide_fp oxides ''SiO2''") (simp_all add: finite_nonneg_def)
  ultimately have q: "nn_or_inf (py_max (Fin 0) (fsub (get_oxide_fp oxides ''SiO2'')
      (fadd (fadd (fmul (get_oxide_fp oxides ''Al2O3'') (lit 2))
      (get_oxide_fp oxides ''CaO'')) (get_oxide_fp oxides ''MgO''))))"
    by (simp add: fsub_def py_max_nn)
  have f: "weak_nn (speciate_FeO_fp (get_oxide_fp oxides ''FeO'') (get_oxide_fp oxides ''Fe2O3''))"
    using g(3,4) by (rule speciate_weak)
  have r: "nn_or_inf (fmul (get_oxide_fp oxides ''K2O'') (lit 6.58))"
    "nn_or_inf (fmul (get_oxide_fp oxides ''Na2O'') (lit 8.52))"
    "nn_or_inf (fmul (get_oxide_fp oxides ''CaO'') (lit 2.35))"
    "nn_or_inf (fmul (fadd (get_oxide_fp oxides ''CaO'') (get_oxide_fp oxides ''MgO'')) (lit 1.1))"
    "nn_or_inf (fmul (fadd (get_oxide_fp oxides ''MgO'')
        (speciate_FeO_fp (get_oxide_fp oxides ''FeO'') (get_oxide_fp oxides ''Fe2O3''))) (lit 0.9))"
    "nn_or_inf (fmul (get_oxide_fp oxides ''Fe2O3'') (lit 1.43))"
    "nn_or_inf (fmul (get_oxide_fp oxides ''TiO2'') (lit 1.89))"
    "nn_or_inf (fmul (get_oxide_fp oxides ''P2O5'') (lit 3.33))"
    by (intro fmul_weak_lit nn_or_inf_weak fadd_weak w f; simp)+
  from q r show ?thesis by (simp add: raw_fp_def Let_def)
qed

lemma fadd_finite:
  "weak_nn a \<Longrightarrow> weak_nn b \<Longrightarrow> is_finite (fadd a b) \<Longrightarrow> is_finite a \<and> is_finite b"
  by (cases a; cases b) (simp_all add: weak_nn_def is_finite_def)

lemma foldl_fadd_finite:
  "weak_nn acc \<Longrightarrow> list_all weak_nn ds \<Longrightarrow> is_finite (foldl fadd acc ds) \<Longrightarrow>
   is_finite acc \<and> list_all is_finite ds"
proof (induction ds arbitrary: acc)
  case Nil
  then show ?case by simp
next
  case (Cons d ds)
  from Cons.prems have w: "weak_nn acc" "weak_nn d" "list_all weak_nn ds" by simp_all
  from w(1,2) have "weak_nn (fadd acc d)" by (simp add: nn_or_inf_weak fadd_weak)
  from Cons.IH [OF this w(3)] Cons.prems(3)
  have "is_finite (fadd acc d)" "list_all is_finite ds" by simp_all
  with fadd_finite [OF w(1,2)] show ?case by simp
qed

lemma fst_foldl_cs_add: "fst (foldl cs_add (f, c) xs) = foldl fadd f xs"
  by (induction xs arbitrary: f c) (simp_all add: Let_def)

lemma foldl_fadd_weak: "weak_nn acc \<Longrightarrow> list_all weak_nn ds \<Longrightarrow> weak_nn (foldl fadd acc ds)"
proof (induction ds arbitrary: acc)
  case Nil
  then show ?case by simp
next
  case (Cons d ds)
  then have "weak_nn acc" "weak_nn d" by simp_all
  then have "weak_nn (fadd acc d)" by (simp add: nn_or_inf_weak fadd_weak)
  with Cons show ?case by simp
qed

lemma cs_result_PInf: "cs_result (PInf, c) = PInf"
  by (cases c) (simp_all add: cs_result_def is_finite_def)

lemma py_sum_fp_finite:
  assumes "list_all weak_nn ds" and "py_sum_fp alg ds = Fin T"
  shows "list_all is_finite ds"
proof -
  have z: "weak_nn (Fin 0)" by (simp add: weak_nn_def)
  have "is_finite (foldl fadd (Fin 0) ds)"
  proof (cases alg)
    case Plain
    with assms(2) show ?thesis by (simp add: sum_plain_def is_finite_def)
  next
    case Compensated
    show ?thesis
    proof (cases ds)
      case Nil
      then show ?thesis by (simp add: is_finite_def)
    next
      case (Cons x xs)
      obtain f c where fc: "foldl cs_add (fadd (Fin 0) x, Fin 0) xs = (f, c)"
        by (cases "foldl cs_add (fadd (Fin 0) x, Fin 0) xs")
      from fst_foldl_cs_add [of "fadd (Fin 0) x" "Fin 0" xs] fc Cons
      have f: "f = foldl fadd (Fin 0) ds" by simp
      from z assms(1) have "weak_nn (foldl fadd (Fin 0) ds)" by (rule foldl_fadd_weak)
      with f have w: "weak_nn f" by simp
      from assms(2) Compensated Cons fc have r: "cs_result (f, c) = Fin T" by simp
      have "is_finite f"
      proof (cases f)
        case (Fin y)
        then show ?thesis by (simp add: is_finite_def)
      next
        case PInf
        with r show ?thesis by (simp add: cs_result_PInf)
      next
        case NInf
        with w show ?thesis by (simp add: weak_nn_def)
      next
        case NaN
        with w show ?thesis by (simp add: weak_nn_def)
      qed
      with f show ?thesis by simp
    qed
  qed
  with foldl_fadd_finite [OF z assms(1)] show ?thesis by simp
qed

lemma nn_or_inf_finite:
  assumes "list_all nn_or_inf ds" and "list_all is_finite ds"
  shows "ds = map Fin (map fin_val ds) \<and> list_all nn_double (map fin_val ds)"
  using assms
proof (induction ds)
  case Nil
  show ?case by simp
next
  case (Cons d ds)
  then obtain x where "d = Fin x" "nn_double x"
    by (cases d) (simp_all add: nn_or_inf_def is_finite_def)
  with Cons show ?case by (simp add: fin_val_def)
qed

lemma u_min_small: "u_min / 2 \<le> 1 / 2 ^ 60"
proof -
  have "(2::real) ^ 60 \<le> 2 ^ 1075" by (intro power_increasing) simp_all
  then have "1 / (2::real) ^ 1075 \<le> 1 / 2 ^ 60" by (intro divide_left_mono) simp_all
  moreover have "u_min / 2 = 1 / 2 ^ 1075" by (simp add: u_min_def)
  ultimately show ?thesis by simp
qed

lemma rnd_val_error_nonneg:
  assumes "0 \<le> x"
  shows "\<bar>rnd_val x - x\<bar> \<le> x / 2 ^ 53 + 1 / 2 ^ 60"
  using rnd_val_error [of x] u_min_small assms by simp

lemma rnd_between:
  assumes "0 \<le> x" and "x \<le> of_int n" and "\<bar>n\<bar> \<le> 2 ^ 52"
  shows "rnd x = Fin (rnd_val x)" and "0 \<le> rnd_val x" and "rnd_val x \<le> of_int n"
proof -
  from assms(1) show lo: "0 \<le> rnd_val x" by (rule rnd_val_nonneg)
  from assms(2) have "rnd_val x \<le> rnd_val (of_int n)" by (rule rnd_val_mono)
  with assms(3) show hi: "rnd_val x \<le> of_int n" by (simp add: rnd_val_of_int)
  from assms(3) have "n \<le> 2 ^ 52" by simp
  then have "(of_int n :: real) \<le> of_int (2 ^ 52)" by (simp only: of_int_le_iff)
  also have "\<dots> < 2 ^ 1024" by simp
  finally have "(of_int n :: real) < 2 ^ 1024" .
  with lo hi have "\<bar>rnd_val x\<bar> < 2 ^ 1024" by simp
  then show "rnd x = Fin (rnd_val x)" by (simp add: rnd_Fin_iff)
qed

lemma round_half_even_lt_half:
  assumes "x < of_int n + 1 / 2"
  shows "round_half_even x \<le> n"
proof -
  from round_half_even_error [of x] have "of_int (round_half_even x) \<le> x + 1 / 2"
    by linarith
  with assms have "(of_int (round_half_even x) :: real) < of_int n + 1" by simp
  then have "(of_int (round_half_even x) :: real) < of_int (n + 1)" by simp
  then have "round_half_even x < n + 1" by (simp only: of_int_less_iff)
  then show ?thesis by simp
qed

lemma lit_hundred: "lit 100 = Fin 100"
  by (simp add: lit_def)

text \<open>One weight, when the total is positive and the raw weight is at most twice the total.\<close>

lemma weight_eval:
  assumes "0 < T" and "0 \<le> v" and "v \<le> 2 * T"
  shows "normalise_value_fp (Fin T) (Fin v) = Inr (Fin (weight T v))"
    and "py_round_fp (fmul (fdiv (Fin v) (Fin T)) (lit 100)) 4 = Fin (weight T v)"
    and "nn_double (weight T v)"
proof -
  define q where "q = rnd_val (v / T)"
  define p where "p = rnd_val (q * 100)"
  define k where "k = round_half_even (p * 10 ^ 4)"
  from assms have r: "0 \<le> v / T" "v / T \<le> of_int 2" by (simp_all add: field_simps)
  from rnd_between [OF r] have q: "rnd (v / T) = Fin q" "0 \<le> q" "q \<le> 2"
    by (simp_all add: q_def)
  then have "0 \<le> q * 100" "q * 100 \<le> of_int 200" by simp_all
  from rnd_between [OF this] have p: "rnd (q * 100) = Fin p" "0 \<le> p" "p \<le> 200"
    by (simp_all add: p_def)
  from p have "of_int 0 \<le> p * 10 ^ 4" "p * 10 ^ 4 \<le> of_int 2000000" by simp_all
  then have "0 \<le> k" "k \<le> 2000000"
    unfolding k_def by (simp_all only: round_half_even_ge_int round_half_even_le_int)
  then have "(of_int 0 :: real) \<le> of_int k" "(of_int k :: real) \<le> of_int 2000000"
    by (simp_all only: of_int_le_iff)
  then have "0 \<le> (of_int k :: real) / 10 ^ 4" "(of_int k :: real) / 10 ^ 4 \<le> of_int 200"
    by simp_all
  from rnd_between [OF this]
  have w: "rnd (of_int k / 10 ^ 4) = Fin (rnd_val (of_int k / 10 ^ 4))"
    "0 \<le> rnd_val (of_int k / 10 ^ 4)" "rnd_val (of_int k / 10 ^ 4) \<le> 200"
    by simp_all
  have e: "weight T v = rnd_val (of_int k / 10 ^ 4)"
    by (simp add: weight_def k_def p_def q_def)
  from q(1) p(1) w(1) show f: "py_round_fp (fmul (fdiv (Fin v) (Fin T)) (lit 100)) 4 = Fin (weight T v)"
    by (simp add: lit_hundred e k_def)
  with assms(1) show "normalise_value_fp (Fin T) (Fin v) = Inr (Fin (weight T v))"
    by (simp add: normalise_value_fp_def py_truediv_fp_def)
  from w(2,3) show "nn_double (weight T v)"
    by (simp add: e nn_double_def rnd_val_on_grid)
qed

lemma weight_real:
  fixes r q p k w :: real
  assumes "0 \<le> r" and "r \<le> 1 + 1 / 2 ^ 27" and "0 \<le> q" and "0 \<le> p" and "0 \<le> k"
      and "\<bar>q - r\<bar> \<le> r / 2 ^ 53 + 1 / 2 ^ 60"
      and "\<bar>p - q * 100\<bar> \<le> q * 100 / 2 ^ 53 + 1 / 2 ^ 60"
      and "\<bar>k - p * 10000\<bar> \<le> 1 / 2"
      and "\<bar>w - k / 10000\<bar> \<le> k / 10000 / 2 ^ 53 + 1 / 2 ^ 60"
  shows "p * 10000 < 1000000 + 1 / 2" and "\<bar>w - 100 * r\<bar> \<le> 1 / 20000 + 1 / 2 ^ 40"
proof -
  have c: "(2::real) ^ 27 = 134217728" "(2::real) ^ 40 = 1099511627776"
    "(2::real) ^ 43 = 8796093022208" "(2::real) ^ 44 = 17592186044416"
    "(2::real) ^ 45 = 35184372088832"
    "(2::real) ^ 51 = 2251799813685248"
    "(2::real) ^ 53 = 9007199254740992" "(2::real) ^ 60 = 1152921504606846976"
    by simp_all
  from assms(1,2) have r2: "r \<le> 2" unfolding c by argo
  from assms(1,6) r2 have a: "\<bar>q - r\<bar> \<le> 1 / 2 ^ 51" unfolding c by argo
  from a r2 have q2: "q \<le> 3" unfolding c by argo
  from assms(3,7) q2 have b: "\<bar>p - q * 100\<bar> \<le> 1 / 2 ^ 44" unfolding c by argo
  from a b have pr: "\<bar>p - 100 * r\<bar> \<le> 1 / 2 ^ 43" unfolding c by argo
  from pr assms(2) show p: "p * 10000 < 1000000 + 1 / 2" unfolding c by argo
  from p assms(8) have k2: "k \<le> 2000000" by argo
  from k2 assms(5,9) have e: "\<bar>w - k / 10000\<bar> \<le> 1 / 2 ^ 45" unfolding c by argo
  from assms(8) have f: "\<bar>k / 10000 - p\<bar> \<le> 1 / 20000" by argo
  from e f pr show "\<bar>w - 100 * r\<bar> \<le> 1 / 20000 + 1 / 2 ^ 40" unfolding c by argo
qed

lemma weight_bound:
  assumes "0 < T" and "0 \<le> v" and "v / T \<le> 1 + 1 / 2 ^ 27"
  shows "weight T v \<le> 100" and "\<bar>weight T v - 100 * (v / T)\<bar> \<le> 1 / 20000 + 1 / 2 ^ 40"
proof -
  define q where "q = rnd_val (v / T)"
  define p where "p = rnd_val (q * 100)"
  define k where "k = round_half_even (p * 10000)"
  define w where "w = rnd_val (of_int k / 10000)"
  from assms have r: "0 \<le> v / T" by simp
  then have q: "0 \<le> q" unfolding q_def by (rule rnd_val_nonneg)
  then have "0 \<le> q * 100" by simp
  then have p: "0 \<le> p" unfolding p_def by (rule rnd_val_nonneg)
  then have "of_int 0 \<le> p * 10000" by simp
  then have "0 \<le> k" unfolding k_def by (rule round_half_even_ge_int)
  then have k: "0 \<le> (of_int k :: real)" by simp
  have e1: "\<bar>q - v / T\<bar> \<le> v / T / 2 ^ 53 + 1 / 2 ^ 60"
    unfolding q_def using r by (rule rnd_val_error_nonneg)
  have e2: "\<bar>p - q * 100\<bar> \<le> q * 100 / 2 ^ 53 + 1 / 2 ^ 60"
    unfolding p_def using \<open>0 \<le> q * 100\<close> by (rule rnd_val_error_nonneg)
  have e3: "\<bar>of_int k - p * 10000\<bar> \<le> 1 / 2"
    unfolding k_def by (rule round_half_even_error)
  from k have "0 \<le> (of_int k :: real) / 10000" by simp
  then have e4: "\<bar>w - of_int k / 10000\<bar> \<le> of_int k / 10000 / 2 ^ 53 + 1 / 2 ^ 60"
    unfolding w_def by (rule rnd_val_error_nonneg)
  note wr = weight_real [OF r assms(3) q p k e1 e2 e3 e4]
  have e: "weight T v = w"
    by (simp add: weight_def w_def k_def p_def q_def)
  from wr(2) show "\<bar>weight T v - 100 * (v / T)\<bar> \<le> 1 / 20000 + 1 / 2 ^ 40"
    by (simp only: e)
  from wr(1) have "p * 10000 < of_int 1000000 + 1 / 2" by simp
  then have "k \<le> 1000000" unfolding k_def by (rule round_half_even_lt_half)
  then have "(of_int k :: real) \<le> of_int 1000000" by (simp only: of_int_le_iff)
  then have "(of_int k :: real) / 10000 \<le> of_int 100" by simp
  from rnd_between(3) [OF \<open>0 \<le> (of_int k :: real) / 10000\<close> this]
  show "weight T v \<le> 100" by (simp add: e w_def)
qed

lemma normalise_value_fp_pos:
  "flt (Fin 0) t \<Longrightarrow>
   normalise_value_fp t v = Inr (py_round_fp (fmul (fdiv v t) (lit 100)) 4)"
  by (auto simp: normalise_value_fp_def py_truediv_fp_def)

lemma normalise_value_fp_nonpos: "\<not> flt (Fin 0) t \<Longrightarrow> normalise_value_fp t v = Inr (Fin 0)"
  by (simp add: normalise_value_fp_def)

lemma normalise_items_fp_pos:
  "flt (Fin 0) t \<Longrightarrow>
   normalise_items_fp t kvs =
     Inr (map (\<lambda>(k, v). (k, py_round_fp (fmul (fdiv v t) (lit 100)) 4)) kvs)"
  by (induction kvs) (auto simp: normalise_value_fp_pos)

lemma normalise_items_fp_nonpos:
  "\<not> flt (Fin 0) t \<Longrightarrow> normalise_items_fp t kvs = Inr (map (\<lambda>(k, v). (k, Fin 0)) kvs)"
  by (induction kvs) (auto simp: normalise_value_fp_nonpos)

lemma calculate_cipw_fp_pos:
  "flt (Fin 0) (total_raw_fp alg oxides) \<Longrightarrow>
   calculate_cipw_fp alg oxides =
     Inr (map (\<lambda>(k, v). (k, py_round_fp (fmul (fdiv v (total_raw_fp alg oxides)) (lit 100)) 4))
            (raw_fp oxides), descriptions)"
  by (simp add: calculate_cipw_fp_def normalise_items_fp_pos)

lemma calculate_cipw_fp_nonpos:
  "\<not> flt (Fin 0) (total_raw_fp alg oxides) \<Longrightarrow>
   calculate_cipw_fp alg oxides = Inr (map (\<lambda>(k, v). (k, Fin 0)) (raw_fp oxides), descriptions)"
  by (simp add: calculate_cipw_fp_def normalise_items_fp_nonpos)

lemma length_raw_fp: "length (raw_fp oxides) = 9"
  by (simp add: raw_fp_def Let_def)

lemma map_snd_values: "map snd (map (\<lambda>(k, v). (k, g v)) kvs) = map g (map snd kvs)"
  by (induction kvs) auto

text \<open>The total against the exact sum of the raw weights.\<close>

lemma total_ratio:
  fixes T S :: real
  assumes "0 < T" and "0 \<le> S" and "\<bar>T - S\<bar> \<le> S / 2 ^ 28"
  shows "S / T \<le> 1 + 1 / 2 ^ 27" and "\<bar>100 * (S / T) - 100\<bar> \<le> 1 / 2 ^ 20"
    and "S \<le> T * (1 + 1 / 2 ^ 27)"
proof -
  have c: "(2::real) ^ 20 = 1048576" "(2::real) ^ 27 = 134217728" "(2::real) ^ 28 = 268435456"
    by simp_all
  define r where "r = S / T"
  from assms(1) have S: "S = r * T" by (simp add: r_def)
  from assms(1) have T0: "0 \<le> T" by simp
  from assms(3) have d: "T - S \<le> S / 2 ^ 28" "S - T \<le> S / 2 ^ 28" by linarith+
  from d(1) T0 have a1: "(T - S) / T \<le> S / 2 ^ 28 / T" by (rule divide_right_mono)
  from d(2) T0 have a2: "(S - T) / T \<le> S / 2 ^ 28 / T" by (rule divide_right_mono)
  have e: "(T - S) / T = 1 - r" "(S - T) / T = r - 1" "S / 2 ^ 28 / T = r / 2 ^ 28"
    using assms(1) by (simp_all add: r_def diff_divide_distrib)
  from a1 a2 have b: "1 - r \<le> r / 2 ^ 28" "r - 1 \<le> r / 2 ^ 28" unfolding e .
  from b show "S / T \<le> 1 + 1 / 2 ^ 27" unfolding r_def [symmetric] c by argo
  from b show "\<bar>100 * (S / T) - 100\<bar> \<le> 1 / 2 ^ 20" unfolding r_def [symmetric] c by argo
  from assms show "S \<le> T * (1 + 1 / 2 ^ 27)" unfolding c by argo
qed

lemma sum_list_error:
  "list_all (\<lambda>x. \<bar>f x - g x\<bar> \<le> e) xs \<Longrightarrow>
   \<bar>sum_list (map f xs) - sum_list (map g xs)\<bar> \<le> real (length xs) * (e :: real)"
proof (induction xs)
  case Nil
  show ?case by simp
next
  case (Cons x xs)
  then have "\<bar>f x - g x\<bar> \<le> e"
    and "\<bar>sum_list (map f xs) - sum_list (map g xs)\<bar> \<le> real (length xs) * e"
    by simp_all
  from abs_error_step [OF this] show ?case by simp
qed

lemma sum_list_ratio: "sum_list (map (\<lambda>v. 100 * (v / T)) vs) = 100 * (sum_list vs / (T :: real))"
  by (induction vs) (simp_all add: add_divide_distrib distrib_left)

text \<open>The weights of a list of raw weights whose total is positive and finite.\<close>

lemma weights_spec:
  assumes "list_all nn_double vs" and "0 < T" and "\<bar>T - sum_list vs\<bar> \<le> sum_list vs / 2 ^ 28"
  shows "list_all (\<lambda>v. py_round_fp (fmul (fdiv (Fin v) (Fin T)) (lit 100)) 4 = Fin (weight T v)
             \<and> nn_double (weight T v) \<and> weight T v \<le> 100
             \<and> \<bar>weight T v - 100 * (v / T)\<bar> \<le> 1 / 20000 + 1 / 2 ^ 40
             \<and> v \<le> T * (1 + 1 / 2 ^ 27)) vs"
proof -
  from assms(1) have nn: "list_all (\<lambda>v. 0 \<le> v) vs"
    by (simp add: list_all_iff nn_double_def)
  then have le: "list_all (\<lambda>v. v \<le> sum_list vs) vs" by (rule member_le_sum_list_real)
  from nn have s0: "0 \<le> sum_list vs" by (induction vs) auto
  note tr = total_ratio [OF assms(2) s0 assms(3)]
  have "py_round_fp (fmul (fdiv (Fin v) (Fin T)) (lit 100)) 4 = Fin (weight T v)
             \<and> nn_double (weight T v) \<and> weight T v \<le> 100
             \<and> \<bar>weight T v - 100 * (v / T)\<bar> \<le> 1 / 20000 + 1 / 2 ^ 40
             \<and> v \<le> T * (1 + 1 / 2 ^ 27)" if "v \<in> set vs" for v
  proof -
    from that nn le have v: "0 \<le> v" "v \<le> sum_list vs" by (simp_all add: list_all_iff)
    from v(2) assms(2) have "v / T \<le> sum_list vs / T" by (simp add: divide_right_mono)
    with tr(1) have r: "v / T \<le> 1 + 1 / 2 ^ 27" by linarith
    have "(1::real) + 1 / 2 ^ 27 \<le> 2" by simp
    with r have "v / T \<le> 2" by linarith
    with assms(2) have v2: "v \<le> 2 * T" by (simp add: field_simps)
    from v(2) tr(3) have "v \<le> T * (1 + 1 / 2 ^ 27)" by linarith
    with weight_eval(2,3) [OF assms(2) v(1) v2] weight_bound [OF assms(2) v(1) r]
    show ?thesis by simp
  qed
  then show ?thesis by (simp add: list_all_iff)
qed

lemma weights_sum:
  assumes "list_all nn_double vs" and "0 < T" and "\<bar>T - sum_list vs\<bar> \<le> sum_list vs / 2 ^ 28"
      and "length vs = 9"
  shows "\<bar>sum_list (map (weight T) vs) - 100\<bar> \<le> 6 / 10000"
proof -
  from assms(1) have s0: "0 \<le> sum_list vs"
    by (induction vs) (auto simp: nn_double_def)
  note tr = total_ratio [OF assms(2) s0 assms(3)]
  from weights_spec [OF assms(1-3)]
  have "list_all (\<lambda>v. \<bar>weight T v - 100 * (v / T)\<bar> \<le> 1 / 20000 + 1 / 2 ^ 40) vs"
    by (simp add: list_all_iff)
  from sum_list_error [OF this]
  have "\<bar>sum_list (map (weight T) vs) - 100 * (sum_list vs / T)\<bar>
          \<le> real (length vs) * (1 / 20000 + 1 / 2 ^ 40)"
    unfolding sum_list_ratio .
  moreover have "real (length vs) * (1 / 20000 + 1 / 2 ^ 40) \<le> 5 / 10000"
    unfolding assms(4) by simp
  moreover have "(1::real) / 2 ^ 20 \<le> 1 / 10000" by simp
  ultimately show ?thesis using tr(2) by linarith
qed

lemma list_all_values:
  "list_all (\<lambda>(k, w). P w) (map (\<lambda>(k, v). (k, g v)) kvs) = list_all (\<lambda>v. P (g v)) (map snd kvs)"
  by (induction kvs) auto

lemma list_all_snd: "list_all (\<lambda>(k, v). P v) kvs = list_all P (map snd kvs)"
  by (induction kvs) auto

lemma raw_values:
  assumes "non_negative_fp oxides" and "list_all is_finite (map snd (raw_fp oxides))"
  shows "\<exists>vs. map snd (raw_fp oxides) = map Fin vs \<and> list_all nn_double vs \<and> length vs = 9"
proof -
  from assms(1) have "list_all nn_or_inf (map snd (raw_fp oxides))" by (rule raw_fp_nn)
  from nn_or_inf_finite [OF this assms(2)]
  have "map snd (raw_fp oxides) = map Fin (map fin_val (map snd (raw_fp oxides)))"
    "list_all nn_double (map fin_val (map snd (raw_fp oxides)))"
    by simp_all
  moreover have "length (map fin_val (map snd (raw_fp oxides))) = 9"
    by (simp add: length_raw_fp)
  ultimately show ?thesis by blast
qed

lemma raw_finite_of_total:
  assumes "non_negative_fp oxides" and "total_raw_fp alg oxides = Fin T"
  shows "list_all is_finite (map snd (raw_fp oxides))"
proof -
  from assms(1) have "list_all nn_or_inf (map snd (raw_fp oxides))" by (rule raw_fp_nn)
  then have "list_all weak_nn (map snd (raw_fp oxides))"
    by (simp add: list_all_iff nn_or_inf_weak)
  from py_sum_fp_finite [OF this] assms(2) show ?thesis by (simp add: total_raw_fp_def)
qed

lemma zero_weight: "py_round_fp (fmul (Fin 0) (lit 100)) 4 = Fin 0"
  using round_half_even_of_int [of 0] by (simp add: lit_hundred)

lemma list_all_const: "P c \<Longrightarrow> list_all (\<lambda>(k, w). P w) (map (\<lambda>(k, v). (k, c)) kvs)"
  by (induction kvs) auto

text \<open>The weights as doubles and as reals.\<close>

lemma weights_values:
  assumes "map snd kvs = map Fin vs" and "list_all nn_double vs" and "0 < T"
      and "\<bar>T - sum_list vs\<bar> \<le> sum_list vs / 2 ^ 28"
  shows "map snd (map (\<lambda>(k, v). (k, py_round_fp (fmul (fdiv v (Fin T)) (lit 100)) 4)) kvs)
           = map Fin (map (weight T) vs)"
proof -
  from weights_spec [OF assms(2-4)]
  have "\<forall>v\<in>set vs. py_round_fp (fmul (fdiv (Fin v) (Fin T)) (lit 100)) 4 = Fin (weight T v)"
    by (simp add: list_all_iff)
  then have e: "map (\<lambda>v. py_round_fp (fmul (fdiv (Fin v) (Fin T)) (lit 100)) 4) vs
      = map (\<lambda>v. Fin (weight T v)) vs"
    by (intro map_cong) simp_all
  have "map snd (map (\<lambda>(k, v). (k, py_round_fp (fmul (fdiv v (Fin T)) (lit 100)) 4)) kvs)
      = map (\<lambda>v. py_round_fp (fmul (fdiv v (Fin T)) (lit 100)) 4) (map snd kvs)"
    by (rule map_snd_values)
  also have "\<dots> = map (\<lambda>v. py_round_fp (fmul (fdiv (Fin v) (Fin T)) (lit 100)) 4) vs"
    by (simp only: assms(1) map_map o_def)
  also note e
  also have "map (\<lambda>v. Fin (weight T v)) vs = map Fin (map (weight T) vs)"
    by (simp only: map_map o_def)
  finally show ?thesis .
qed

text \<open>
  C10, amended. For a composition whose ten oxide values are finite and non-negative and
  whose nine raw weights are all finite, every raw weight is non-negative, every raw weight
  is at most the raw total but for the rounding of the sum (a factor \<open>1 + 2 ^ -27\<close>) when
  the total is finite, and every weight returned lies between 0 and 100.
\<close>

theorem calculate_cipw_bounded:
  assumes "non_negative_fp oxides" and "list_all (\<lambda>(k, v). is_finite v) (raw_fp oxides)"
  shows "list_all (\<lambda>(k, v). finite_nonneg v) (raw_fp oxides)
       \<and> (total_raw_fp alg oxides = Fin T \<longrightarrow>
            0 \<le> T \<and> list_all (\<lambda>(k, v). fin_val v \<le> T * (1 + 1 / 2 ^ 27)) (raw_fp oxides))
       \<and> (\<exists>minerals. calculate_cipw_fp alg oxides = Inr (minerals, descriptions)
             \<and> list_all (\<lambda>(k, w). in_range 0 100 w) minerals)"
proof -
  from assms(2) have fin: "list_all is_finite (map snd (raw_fp oxides))"
    by (simp only: list_all_snd)
  from raw_values [OF assms(1) fin] obtain vs where
    vs: "map snd (raw_fp oxides) = map Fin vs" "list_all nn_double vs" "length vs = 9"
    by blast
  from vs(2) have nn: "list_all (\<lambda>v. 0 \<le> v) vs" by (simp add: list_all_iff nn_double_def)
  then have le: "list_all (\<lambda>v. v \<le> sum_list vs) vs" by (rule member_le_sum_list_real)
  have "list_all finite_nonneg (map snd (raw_fp oxides))"
    unfolding vs(1) using nn by (simp add: list_all_iff finite_nonneg_def)
  then have a: "list_all (\<lambda>(k, v). finite_nonneg v) (raw_fp oxides)"
    by (simp only: list_all_snd)
  from vs(3) have len: "real (length vs) \<le> 2 ^ 20" by simp
  have t: "total_raw_fp alg oxides = py_sum_fp alg (map Fin vs)"
    by (simp add: total_raw_fp_def vs(1))
  from py_sum_fp_spec [OF vs(2) len, of alg]
  show ?thesis
  proof
    assume "py_sum_fp alg (map Fin vs) = PInf \<and> 2 ^ 1022 \<le> sum_list vs"
    with t have inf: "total_raw_fp alg oxides = PInf" by simp
    then have "flt (Fin 0) (total_raw_fp alg oxides)" by simp
    from calculate_cipw_fp_pos [OF this]
    have c: "calculate_cipw_fp alg oxides =
        Inr (map (\<lambda>(k, v). (k, py_round_fp (fmul (fdiv v PInf) (lit 100)) 4)) (raw_fp oxides),
             descriptions)"
      by (simp only: inf)
    have "map snd (map (\<lambda>(k, v). (k, py_round_fp (fmul (fdiv v PInf) (lit 100)) 4))
        (raw_fp oxides)) = map (\<lambda>v. Fin 0) vs"
      unfolding map_snd_values vs(1) by (simp add: zero_weight)
    then have "list_all (in_range 0 100)
        (map snd (map (\<lambda>(k, v). (k, py_round_fp (fmul (fdiv v PInf) (lit 100)) 4))
           (raw_fp oxides)))"
      by (simp add: list_all_iff in_range_def)
    then have "list_all (\<lambda>(k, w). in_range 0 100 w)
        (map (\<lambda>(k, v). (k, py_round_fp (fmul (fdiv v PInf) (lit 100)) 4)) (raw_fp oxides))"
      by (simp only: list_all_snd)
    with a c inf show ?thesis by simp
  next
    assume "\<exists>T. py_sum_fp alg (map Fin vs) = Fin T \<and> 0 \<le> T \<and> on_grid T
              \<and> \<bar>T - sum_list vs\<bar> \<le> sum_list vs / 2 ^ 28"
    then obtain T0 where T0: "total_raw_fp alg oxides = Fin T0" "0 \<le> T0"
      "\<bar>T0 - sum_list vs\<bar> \<le> sum_list vs / 2 ^ 28"
      using t by auto
    show ?thesis
    proof (cases "0 < T0")
      case True
      note ws = weights_spec [OF vs(2) True T0(3)]
      from ws have "list_all (\<lambda>v. fin_val v \<le> T0 * (1 + 1 / 2 ^ 27)) (map snd (raw_fp oxides))"
        unfolding vs(1) by (simp add: list_all_iff fin_val_def)
      then have b: "list_all (\<lambda>(k, v). fin_val v \<le> T0 * (1 + 1 / 2 ^ 27)) (raw_fp oxides)"
        by (simp only: list_all_snd)
      from True T0(1) have "flt (Fin 0) (total_raw_fp alg oxides)" by simp
      from calculate_cipw_fp_pos [OF this]
      have c: "calculate_cipw_fp alg oxides =
          Inr (map (\<lambda>(k, v). (k, py_round_fp (fmul (fdiv v (Fin T0)) (lit 100)) 4))
                 (raw_fp oxides), descriptions)"
        by (simp only: T0(1))
      have "map snd (map (\<lambda>(k, v). (k, py_round_fp (fmul (fdiv v (Fin T0)) (lit 100)) 4))
          (raw_fp oxides)) = map Fin (map (weight T0) vs)"
        using vs(1,2) True T0(3) by (rule weights_values)
      with ws have "list_all (in_range 0 100)
          (map snd (map (\<lambda>(k, v). (k, py_round_fp (fmul (fdiv v (Fin T0)) (lit 100)) 4))
             (raw_fp oxides)))"
        by (simp add: list_all_iff in_range_def nn_double_def)
      then have "list_all (\<lambda>(k, w). in_range 0 100 w)
          (map (\<lambda>(k, v). (k, py_round_fp (fmul (fdiv v (Fin T0)) (lit 100)) 4)) (raw_fp oxides))"
        by (simp only: list_all_snd)
      with a b c T0 show ?thesis by auto
    next
      case False
      with T0(2) have z: "T0 = 0" by simp
      from nn have "0 \<le> sum_list vs" by (induction vs) auto
      with T0(3) z have "sum_list vs = 0" by simp
      with le have "list_all (\<lambda>v. v \<le> 0) vs" by simp
      then have "list_all (\<lambda>v. fin_val v \<le> T0 * (1 + 1 / 2 ^ 27)) (map snd (raw_fp oxides))"
        unfolding vs(1) by (simp add: list_all_iff fin_val_def z)
      then have b: "list_all (\<lambda>(k, v). fin_val v \<le> T0 * (1 + 1 / 2 ^ 27)) (raw_fp oxides)"
        by (simp only: list_all_snd)
      from z T0(1) have "\<not> flt (Fin 0) (total_raw_fp alg oxides)" by simp
      from calculate_cipw_fp_nonpos [OF this]
      have c: "calculate_cipw_fp alg oxides =
          Inr (map (\<lambda>(k, v). (k, Fin 0)) (raw_fp oxides), descriptions)" .
      have "in_range 0 100 (Fin 0)" by (simp add: in_range_def)
      then have "list_all (\<lambda>(k, w). in_range 0 100 w) (map (\<lambda>(k, v). (k, Fin 0)) (raw_fp oxides))"
        by (rule list_all_const)
      with a b c T0 show ?thesis by auto
    qed
  qed
qed

text \<open>
  C1, amended. For a composition whose ten oxide values are finite and non-negative and
  whose raw total is finite: when the total is positive, each weight returned is the raw
  weight divided by the total, times 100, rounded to 4 decimals, all in double precision;
  the nine weights are finite and sum to 100 within \<open>10\<^sup>-\<^sup>3\<close>, as real numbers and also
  when Python adds them; when the total is 0, every weight is 0. No exception is raised,
  so no division by zero is reached.
\<close>

theorem calculate_cipw_normalised:
  assumes "non_negative_fp oxides" and "total_raw_fp alg oxides = Fin T"
  shows "(0 < T \<longrightarrow>
            (\<exists>minerals. calculate_cipw_fp alg oxides = Inr (minerals, descriptions)
               \<and> minerals = map (\<lambda>(k, v). (k, py_round_fp (fmul (fdiv v (Fin T)) (lit 100)) 4))
                              (raw_fp oxides)
               \<and> length minerals = 9
               \<and> list_all (\<lambda>(k, w). is_finite w) minerals
               \<and> \<bar>sum_list (map (\<lambda>(k, w). fin_val w) minerals) - 100\<bar> \<le> 1 / 1000
               \<and> (\<exists>s. py_sum_fp alg (map snd minerals) = Fin s \<and> \<bar>s - 100\<bar> \<le> 1 / 1000)))
       \<and> (T = 0 \<longrightarrow>
            calculate_cipw_fp alg oxides =
              Inr (map (\<lambda>(k, v). (k, Fin 0)) (raw_fp oxides), descriptions))"
proof (intro conjI impI)
  assume pos: "0 < T"
  let ?m = "map (\<lambda>(k, v). (k, py_round_fp (fmul (fdiv v (Fin T)) (lit 100)) 4)) (raw_fp oxides)"
  from assms have fin: "list_all is_finite (map snd (raw_fp oxides))"
    by (rule raw_finite_of_total)
  from raw_values [OF assms(1) fin] obtain vs where
    vs: "map snd (raw_fp oxides) = map Fin vs" "list_all nn_double vs" "length vs = 9"
    by blast
  from vs(3) have len: "real (length vs) \<le> 2 ^ 20" by simp
  from py_sum_fp_spec [OF vs(2) len, of alg] assms(2)
  have acc: "\<bar>T - sum_list vs\<bar> \<le> sum_list vs / 2 ^ 28"
    by (auto simp: total_raw_fp_def vs(1))
  from pos assms(2) have "flt (Fin 0) (total_raw_fp alg oxides)" by simp
  from calculate_cipw_fp_pos [OF this]
  have c: "calculate_cipw_fp alg oxides = Inr (?m, descriptions)"
    by (simp only: assms(2))
  have l: "length ?m = 9" by (simp add: length_raw_fp)
  have v: "map snd ?m = map Fin (map (weight T) vs)"
    using vs(1,2) pos acc by (rule weights_values)
  then have "list_all is_finite (map snd ?m)"
    by (simp add: list_all_iff is_finite_def)
  then have f: "list_all (\<lambda>(k, w). is_finite w) ?m"
    by (simp only: list_all_snd)
  have "map (\<lambda>(k, w). fin_val w) ?m = map fin_val (map snd ?m)"
    by (simp add: split_beta)
  also have "\<dots> = map (weight T) vs"
    by (simp only: v) (simp add: o_def fin_val_def)
  finally have e: "map (\<lambda>(k, w). fin_val w) ?m = map (weight T) vs" .
  have s: "\<bar>sum_list (map (weight T) vs) - 100\<bar> \<le> 6 / 10000"
    using vs(2) pos acc vs(3) by (rule weights_sum)
  from weights_spec [OF vs(2) pos acc]
  have wn: "list_all nn_double (map (weight T) vs)" by (simp add: list_all_iff)
  have wl: "real (length (map (weight T) vs)) \<le> 2 ^ 20" using vs(3) by simp
  from py_sum_fp_spec [OF wn wl, of alg]
  have "\<exists>s. py_sum_fp alg (map snd ?m) = Fin s \<and> \<bar>s - 100\<bar> \<le> 1 / 1000"
  proof
    assume "py_sum_fp alg (map Fin (map (weight T) vs)) = PInf
        \<and> 2 ^ 1022 \<le> sum_list (map (weight T) vs)"
    then have "(2::real) ^ 1022 \<le> sum_list (map (weight T) vs)" by simp
    moreover have "(2::real) ^ 10 \<le> 2 ^ 1022" by (intro power_increasing) simp_all
    ultimately have "1024 \<le> sum_list (map (weight T) vs)" by simp
    with s show ?thesis by linarith
  next
    assume "\<exists>S. py_sum_fp alg (map Fin (map (weight T) vs)) = Fin S \<and> 0 \<le> S \<and> on_grid S
        \<and> \<bar>S - sum_list (map (weight T) vs)\<bar> \<le> sum_list (map (weight T) vs) / 2 ^ 28"
    then obtain S where S: "py_sum_fp alg (map Fin (map (weight T) vs)) = Fin S"
      "\<bar>S - sum_list (map (weight T) vs)\<bar> \<le> sum_list (map (weight T) vs) / 2 ^ 28"
      by blast
    have p: "(2::real) ^ 28 = 268435456" by simp
    from S(2) s have "\<bar>S - 100\<bar> \<le> 1 / 1000" unfolding p by argo
    with S(1) v show ?thesis by simp
  qed
  with c l f e s
  show "\<exists>minerals. calculate_cipw_fp alg oxides = Inr (minerals, descriptions)
               \<and> minerals = ?m
               \<and> length minerals = 9
               \<and> list_all (\<lambda>(k, w). is_finite w) minerals
               \<and> \<bar>sum_list (map (\<lambda>(k, w). fin_val w) minerals) - 100\<bar> \<le> 1 / 1000
               \<and> (\<exists>s. py_sum_fp alg (map snd minerals) = Fin s \<and> \<bar>s - 100\<bar> \<le> 1 / 1000)"
    by simp
next
  assume "T = 0"
  with assms(2) have "\<not> flt (Fin 0) (total_raw_fp alg oxides)" by simp
  then show "calculate_cipw_fp alg oxides =
              Inr (map (\<lambda>(k, v). (k, Fin 0)) (raw_fp oxides), descriptions)"
    by (rule calculate_cipw_fp_nonpos)
qed

lemma fmul_zero_lit: "1 / 2 \<le> c \<Longrightarrow> c \<le> 256 \<Longrightarrow> fmul (Fin 0) (lit c) = Fin 0"
  by (simp add: lit_Fin(1))

lemma fmul_huge_lit:
  assumes "2 \<le> c" and "c \<le> 256"
  shows "fmul (Fin huge) (lit c) = PInf"
proof -
  from assms have l: "lit c = Fin (rnd_val c)" by (intro lit_Fin(1)) simp_all
  have "rnd_val 2 = 2" using rnd_val_of_int [of 2] by simp
  with rnd_val_mono [OF assms(1)] have "2 \<le> rnd_val c" by simp
  then have "huge * 2 \<le> huge * rnd_val c"
    by (intro mult_left_mono) (simp_all add: huge_def)
  moreover have "huge * 2 = 2 ^ 1024" by (simp add: huge_def)
  ultimately have "2 ^ 1024 \<le> huge * rnd_val c" by simp
  then have "rnd (huge * rnd_val c) = PInf" by (rule rnd_overflow)
  with l show ?thesis by simp
qed

lemma huge_pos: "0 < huge"
  by (simp add: huge_def)

lemma fadd_zero [simp]: "fadd (Fin 0) (Fin 0) = Fin 0"
  by simp

lemma nan_weight: "py_round_fp (fmul (fdiv PInf PInf) (lit 100)) 4 = NaN"
  by simp

lemma zero_over_inf: "py_round_fp (fmul (fdiv (Fin 0) PInf) (lit 100)) 4 = Fin 0"
  by (simp add: zero_weight)

lemma raw_huge_K2O:
  "raw_fp huge_K2O =
     [(''Quartz (Q)'', Fin 0), (''Orthoclase (Or)'', PInf), (''Albite (Ab)'', Fin 0),
      (''Anorthite (An)'', Fin 0), (''Diopside (Di)'', Fin 0), (''Olivine (Ol)'', Fin 0),
      (''Magnetite (Mt)'', Fin 0), (''Ilmenite (Il)'', Fin 0), (''Apatite (Ap)'', Fin 0)]"
  by (simp add: raw_fp_def Let_def huge_K2O_def get_oxide_fp_def speciate_FeO_fp_def fle_def
      py_max_def fsub_def fmul_zero_lit fmul_huge_lit)

lemma raw_huge_Na2O:
  "raw_fp huge_Na2O =
     [(''Quartz (Q)'', Fin 0), (''Orthoclase (Or)'', Fin 0), (''Albite (Ab)'', PInf),
      (''Anorthite (An)'', Fin 0), (''Diopside (Di)'', Fin 0), (''Olivine (Ol)'', Fin 0),
      (''Magnetite (Mt)'', Fin 0), (''Ilmenite (Il)'', Fin 0), (''Apatite (Ap)'', Fin 0)]"
  by (simp add: raw_fp_def Let_def huge_Na2O_def get_oxide_fp_def speciate_FeO_fp_def fle_def
      py_max_def fsub_def fmul_zero_lit fmul_huge_lit)

lemma total_huge_K2O:
  "total_raw_fp Plain huge_K2O = PInf" "total_raw_fp Compensated huge_K2O = PInf"
  by (simp_all add: total_raw_fp_def raw_huge_K2O sum_plain_def Let_def fle_def fsub_def
      cs_result_def is_finite_def)

lemma total_huge_Na2O:
  "total_raw_fp Plain huge_Na2O = PInf" "total_raw_fp Compensated huge_Na2O = PInf"
  by (simp_all add: total_raw_fp_def raw_huge_Na2O sum_plain_def Let_def fle_def fsub_def
      cs_result_def is_finite_def)

text \<open>
  C1, as stated, holds for every finite non-negative composition. With K2O at
  \<open>2 ^ 1023\<close>, a finite double, and no other oxide, the raw Orthoclase weight and the raw
  total are infinite; the total is positive, the Orthoclase weight returned is not a
  number and the other eight are 0, so the weights do not sum to 100.
\<close>

theorem overflow_counterexample:
  "non_negative_fp huge_K2O
   \<and> total_raw_fp Plain huge_K2O = PInf \<and> total_raw_fp Compensated huge_K2O = PInf
   \<and> flt (Fin 0) PInf
   \<and> calculate_cipw_fp Plain huge_K2O =
       Inr ([(''Quartz (Q)'', Fin 0), (''Orthoclase (Or)'', NaN), (''Albite (Ab)'', Fin 0),
             (''Anorthite (An)'', Fin 0), (''Diopside (Di)'', Fin 0), (''Olivine (Ol)'', Fin 0),
             (''Magnetite (Mt)'', Fin 0), (''Ilmenite (Il)'', Fin 0), (''Apatite (Ap)'', Fin 0)],
            descriptions)
   \<and> calculate_cipw_fp Compensated huge_K2O = calculate_cipw_fp Plain huge_K2O
   \<and> py_sum_fp Plain [Fin 0, NaN, Fin 0, Fin 0, Fin 0, Fin 0, Fin 0, Fin 0, Fin 0] = NaN
   \<and> py_sum_fp Compensated [Fin 0, NaN, Fin 0, Fin 0, Fin 0, Fin 0, Fin 0, Fin 0, Fin 0] = NaN"
proof -
  have n: "non_negative_fp huge_K2O"
    using huge_pos
    by (simp add: non_negative_fp_def OXIDES_def huge_K2O_def get_oxide_fp_def finite_nonneg_def)
  have f: "flt (Fin 0) PInf" by simp
  have c: "calculate_cipw_fp alg huge_K2O =
       Inr ([(''Quartz (Q)'', Fin 0), (''Orthoclase (Or)'', NaN), (''Albite (Ab)'', Fin 0),
             (''Anorthite (An)'', Fin 0), (''Diopside (Di)'', Fin 0), (''Olivine (Ol)'', Fin 0),
             (''Magnetite (Mt)'', Fin 0), (''Ilmenite (Il)'', Fin 0), (''Apatite (Ap)'', Fin 0)],
            descriptions)" if "total_raw_fp alg huge_K2O = PInf" for alg
  proof -
    from that have "flt (Fin 0) (total_raw_fp alg huge_K2O)" by simp
    from calculate_cipw_fp_pos [OF this] show ?thesis
      by (simp only: that raw_huge_K2O list.map prod.case nan_weight zero_over_inf)
  qed
  have s: "py_sum_fp Plain [Fin 0, NaN, Fin 0, Fin 0, Fin 0, Fin 0, Fin 0, Fin 0, Fin 0] = NaN"
    "py_sum_fp Compensated [Fin 0, NaN, Fin 0, Fin 0, Fin 0, Fin 0, Fin 0, Fin 0, Fin 0] = NaN"
    by (simp_all add: sum_plain_def Let_def fle_def fsub_def cs_result_def is_finite_def)
  from n total_huge_K2O f c [OF total_huge_K2O(1)] c [OF total_huge_K2O(2)] s
  show ?thesis by simp
qed

text \<open>
  C10, as stated, has every weight in [0, 100] for every finite non-negative composition.
  With Na2O at \<open>2 ^ 1023\<close>, a finite double, and no other oxide, the raw Albite weight is
  infinite and the Albite weight returned is not a number.
\<close>

theorem unbounded_counterexample:
  "non_negative_fp huge_Na2O
   \<and> map_of (raw_fp huge_Na2O) ''Albite (Ab)'' = Some PInf
   \<and> calculate_cipw_fp Plain huge_Na2O =
       Inr ([(''Quartz (Q)'', Fin 0), (''Orthoclase (Or)'', Fin 0), (''Albite (Ab)'', NaN),
             (''Anorthite (An)'', Fin 0), (''Diopside (Di)'', Fin 0), (''Olivine (Ol)'', Fin 0),
             (''Magnetite (Mt)'', Fin 0), (''Ilmenite (Il)'', Fin 0), (''Apatite (Ap)'', Fin 0)],
            descriptions)
   \<and> calculate_cipw_fp Compensated huge_Na2O = calculate_cipw_fp Plain huge_Na2O
   \<and> \<not> in_range 0 100 NaN"
proof -
  have n: "non_negative_fp huge_Na2O"
    using huge_pos
    by (simp add: non_negative_fp_def OXIDES_def huge_Na2O_def get_oxide_fp_def
        finite_nonneg_def)
  have r: "map_of (raw_fp huge_Na2O) ''Albite (Ab)'' = Some PInf"
    by (simp add: raw_huge_Na2O)
  have c: "calculate_cipw_fp alg huge_Na2O =
       Inr ([(''Quartz (Q)'', Fin 0), (''Orthoclase (Or)'', Fin 0), (''Albite (Ab)'', NaN),
             (''Anorthite (An)'', Fin 0), (''Diopside (Di)'', Fin 0), (''Olivine (Ol)'', Fin 0),
             (''Magnetite (Mt)'', Fin 0), (''Ilmenite (Il)'', Fin 0), (''Apatite (Ap)'', Fin 0)],
            descriptions)" if "total_raw_fp alg huge_Na2O = PInf" for alg
  proof -
    from that have "flt (Fin 0) (total_raw_fp alg huge_Na2O)" by simp
    from calculate_cipw_fp_pos [OF this] show ?thesis
      by (simp only: that raw_huge_Na2O list.map prod.case nan_weight zero_over_inf)
  qed
  have i: "\<not> in_range 0 100 NaN" by (simp add: in_range_def)
  from n r c [OF total_huge_Na2O(1)] c [OF total_huge_Na2O(2)] i
  show ?thesis by simp
qed

lemma raw_pure_silica:
  "raw_fp pure_silica =
     [(''Quartz (Q)'', Fin 100), (''Orthoclase (Or)'', Fin 0), (''Albite (Ab)'', Fin 0),
      (''Anorthite (An)'', Fin 0), (''Diopside (Di)'', Fin 0), (''Olivine (Ol)'', Fin 0),
      (''Magnetite (Mt)'', Fin 0), (''Ilmenite (Il)'', Fin 0), (''Apatite (Ap)'', Fin 0)]"
  by (simp add: raw_fp_def Let_def pure_silica_def get_oxide_fp_def speciate_FeO_fp_def fle_def
      py_max_def fsub_def fmul_zero_lit)

lemma raw_empty_fp:
  "raw_fp Map.empty =
     [(''Quartz (Q)'', Fin 0), (''Orthoclase (Or)'', Fin 0), (''Albite (Ab)'', Fin 0),
      (''Anorthite (An)'', Fin 0), (''Diopside (Di)'', Fin 0), (''Olivine (Ol)'', Fin 0),
      (''Magnetite (Mt)'', Fin 0), (''Ilmenite (Il)'', Fin 0), (''Apatite (Ap)'', Fin 0)]"
  by (simp add: raw_fp_def Let_def get_oxide_fp_def speciate_FeO_fp_def fle_def
      py_max_def fsub_def fmul_zero_lit)

lemma total_pure_silica:
  "total_raw_fp Plain pure_silica = Fin 100" "total_raw_fp Compensated pure_silica = Fin 100"
  by (simp_all add: total_raw_fp_def raw_pure_silica sum_plain_def Let_def fle_def fsub_def
      cs_result_def)

lemma total_empty_fp:
  "total_raw_fp Plain Map.empty = Fin 0" "total_raw_fp Compensated Map.empty = Fin 0"
  by (simp_all add: total_raw_fp_def raw_empty_fp sum_plain_def Let_def fle_def fsub_def
      cs_result_def)

lemma full_weight: "py_round_fp (fmul (fdiv (Fin 100) (Fin 100)) (lit 100)) 4 = Fin 100"
  using round_half_even_of_int [of 1000000] by (simp add: lit_hundred)

lemma no_weight: "py_round_fp (fmul (fdiv (Fin 0) (Fin 100)) (lit 100)) 4 = Fin 0"
  by (simp add: zero_weight)

lemma non_negative_pure_silica: "non_negative_fp pure_silica"
  by (simp add: non_negative_fp_def OXIDES_def pure_silica_def get_oxide_fp_def
      finite_nonneg_def)

lemma non_negative_empty_fp: "non_negative_fp Map.empty"
  by (simp add: non_negative_fp_def OXIDES_def get_oxide_fp_def finite_nonneg_def)

theorem calculate_cipw_normalised_witness:
  "non_negative_fp pure_silica \<and> total_raw_fp Plain pure_silica = Fin 100 \<and> 0 < (100 :: real)
   \<and> calculate_cipw_fp Plain pure_silica =
       Inr ([(''Quartz (Q)'', Fin 100), (''Orthoclase (Or)'', Fin 0), (''Albite (Ab)'', Fin 0),
             (''Anorthite (An)'', Fin 0), (''Diopside (Di)'', Fin 0), (''Olivine (Ol)'', Fin 0),
             (''Magnetite (Mt)'', Fin 0), (''Ilmenite (Il)'', Fin 0), (''Apatite (Ap)'', Fin 0)],
            descriptions)
   \<and> \<bar>sum_list (map (\<lambda>(k, w). fin_val w)
         (map (\<lambda>(k, v). (k, py_round_fp (fmul (fdiv v (Fin 100)) (lit 100)) 4))
            (raw_fp pure_silica))) - 100\<bar> \<le> 1 / 1000
   \<and> non_negative_fp Map.empty \<and> total_raw_fp Compensated Map.empty = Fin 0
   \<and> calculate_cipw_fp Compensated Map.empty =
       Inr ([(''Quartz (Q)'', Fin 0), (''Orthoclase (Or)'', Fin 0), (''Albite (Ab)'', Fin 0),
             (''Anorthite (An)'', Fin 0), (''Diopside (Di)'', Fin 0), (''Olivine (Ol)'', Fin 0),
             (''Magnetite (Mt)'', Fin 0), (''Ilmenite (Il)'', Fin 0), (''Apatite (Ap)'', Fin 0)],
            descriptions)"
proof -
  note n1 = non_negative_pure_silica and t1 = total_pure_silica(1)
  note n0 = non_negative_empty_fp and t0 = total_empty_fp(2)
  have p: "0 < (100 :: real)" by simp
  have m: "map (\<lambda>(k, v). (k, py_round_fp (fmul (fdiv v (Fin 100)) (lit 100)) 4))
      (raw_fp pure_silica) =
      [(''Quartz (Q)'', Fin 100), (''Orthoclase (Or)'', Fin 0), (''Albite (Ab)'', Fin 0),
       (''Anorthite (An)'', Fin 0), (''Diopside (Di)'', Fin 0), (''Olivine (Ol)'', Fin 0),
       (''Magnetite (Mt)'', Fin 0), (''Ilmenite (Il)'', Fin 0), (''Apatite (Ap)'', Fin 0)]"
    by (simp only: raw_pure_silica list.map prod.case full_weight no_weight)
  from calculate_cipw_normalised [OF n1 t1] p obtain minerals where
    a: "calculate_cipw_fp Plain pure_silica = Inr (minerals, descriptions)"
       "minerals = map (\<lambda>(k, v). (k, py_round_fp (fmul (fdiv v (Fin 100)) (lit 100)) 4))
                     (raw_fp pure_silica)"
       "\<bar>sum_list (map (\<lambda>(k, w). fin_val w) minerals) - 100\<bar> \<le> 1 / 1000"
    by blast
  from a(1,2) have c1: "calculate_cipw_fp Plain pure_silica =
       Inr ([(''Quartz (Q)'', Fin 100), (''Orthoclase (Or)'', Fin 0), (''Albite (Ab)'', Fin 0),
             (''Anorthite (An)'', Fin 0), (''Diopside (Di)'', Fin 0), (''Olivine (Ol)'', Fin 0),
             (''Magnetite (Mt)'', Fin 0), (''Ilmenite (Il)'', Fin 0), (''Apatite (Ap)'', Fin 0)],
            descriptions)"
    by (simp only: m)
  from a(2,3) have s1: "\<bar>sum_list (map (\<lambda>(k, w). fin_val w)
         (map (\<lambda>(k, v). (k, py_round_fp (fmul (fdiv v (Fin 100)) (lit 100)) 4))
            (raw_fp pure_silica))) - 100\<bar> \<le> 1 / 1000"
    by simp
  from calculate_cipw_normalised [OF n0 t0]
  have "calculate_cipw_fp Compensated Map.empty =
      Inr (map (\<lambda>(k, v). (k, Fin 0)) (raw_fp Map.empty), descriptions)"
    by simp
  then have c0: "calculate_cipw_fp Compensated Map.empty =
       Inr ([(''Quartz (Q)'', Fin 0), (''Orthoclase (Or)'', Fin 0), (''Albite (Ab)'', Fin 0),
             (''Anorthite (An)'', Fin 0), (''Diopside (Di)'', Fin 0), (''Olivine (Ol)'', Fin 0),
             (''Magnetite (Mt)'', Fin 0), (''Ilmenite (Il)'', Fin 0), (''Apatite (Ap)'', Fin 0)],
            descriptions)"
    by (simp only: raw_empty_fp list.map prod.case)
  from n1 t1 p c1 s1 n0 t0 c0 show ?thesis by blast
qed

theorem calculate_cipw_bounded_witness:
  "non_negative_fp pure_silica
   \<and> list_all (\<lambda>(k, v). is_finite v) (raw_fp pure_silica)
   \<and> list_all (\<lambda>(k, v). finite_nonneg v) (raw_fp pure_silica)
   \<and> total_raw_fp Compensated pure_silica = Fin 100
   \<and> list_all (\<lambda>(k, v). fin_val v \<le> 100 * (1 + 1 / 2 ^ 27)) (raw_fp pure_silica)
   \<and> (\<exists>minerals. calculate_cipw_fp Compensated pure_silica = Inr (minerals, descriptions)
         \<and> list_all (\<lambda>(k, w). in_range 0 100 w) minerals)"
proof -
  note n = non_negative_pure_silica and t = total_pure_silica(2)
  have f: "list_all (\<lambda>(k, v). is_finite v) (raw_fp pure_silica)"
    by (simp add: raw_pure_silica is_finite_def)
  from calculate_cipw_bounded [OF n f, of Compensated 100] t n f show ?thesis by blast
qed

section \<open>Properties of the store\<close>

lemma load_absent: "fs SAVED_JSON = None \<Longrightarrow> load_saved_analyses json_load fs = Inr []"
  by (simp add: load_saved_analyses_def path_exists_def)

lemma load_present:
  "fs SAVED_JSON = Some f \<Longrightarrow>
   load_saved_analyses json_load fs =
     (if readable f then
        (case json_load (content f) of
           Inl e \<Rightarrow> Inr []
         | Inr data \<Rightarrow> Inr (if isinstance_dict data then dict_items data else []))
      else Inr [])"
  by (simp add: load_saved_analyses_def path_exists_def open_read_def split: sum.splits)

lemma load_returns: "\<exists>doc. load_saved_analyses json_load fs = Inr doc"
proof (cases "fs SAVED_JSON")
  case None
  then show ?thesis by (simp add: load_absent)
next
  case (Some f)
  then show ?thesis by (simp add: load_present split: sum.splits)
qed

text \<open>
  C5. \<^verbatim>\<open>load_saved_analyses\<close> returns the empty mapping when the file is absent, when
  it cannot be read, when its text does not parse, and when it parses to something other
  than a \<^verbatim>\<open>dict\<close>; and whatever the file system holds, it returns a mapping and never
  an exception.
\<close>

theorem load_fail_soft:
  "(fs SAVED_JSON = None \<longrightarrow> load_saved_analyses json_load fs = Inr [])
   \<and> (fs SAVED_JSON = Some f \<and> \<not> readable f \<longrightarrow> load_saved_analyses json_load fs = Inr [])
   \<and> (fs SAVED_JSON = Some f \<and> readable f \<and> json_load (content f) = Inl e \<longrightarrow>
        load_saved_analyses json_load fs = Inr [])
   \<and> (fs SAVED_JSON = Some f \<and> readable f \<and> json_load (content f) = Inr data
        \<and> \<not> isinstance_dict data \<longrightarrow>
        load_saved_analyses json_load fs = Inr [])
   \<and> (\<exists>doc. load_saved_analyses json_load fs = Inr doc)"
  by (auto simp: load_absent load_present load_returns)

theorem load_fail_soft_witness:
  "Map.empty SAVED_JSON = None
   \<and> load_saved_analyses sample_json_load Map.empty = Inr []
   \<and> file_with False ''{run1}'' SAVED_JSON
        = Some \<lparr>readable = False, writable = True, content = ''{run1}''\<rparr>
   \<and> load_saved_analyses sample_json_load (file_with False ''{run1}'') = Inr []
   \<and> file_with True ''{run1'' SAVED_JSON
        = Some \<lparr>readable = True, writable = True, content = ''{run1''\<rparr>
   \<and> sample_json_load ''{run1'' = Inl JSONDecodeError
   \<and> load_saved_analyses sample_json_load (file_with True ''{run1'') = Inr []
   \<and> file_with True ''[]'' SAVED_JSON
        = Some \<lparr>readable = True, writable = True, content = ''[]''\<rparr>
   \<and> sample_json_load ''[]'' = Inr (JList [])
   \<and> \<not> isinstance_dict (JList [])
   \<and> load_saved_analyses sample_json_load (file_with True ''[]'') = Inr []"
proof -
  have a: "(Map.empty :: fs) SAVED_JSON = None" by simp
  have b: "file_with False ''{run1}'' SAVED_JSON
        = Some \<lparr>readable = False, writable = True, content = ''{run1}''\<rparr>"
    by (simp add: file_with_def)
  have c: "file_with True ''{run1'' SAVED_JSON
        = Some \<lparr>readable = True, writable = True, content = ''{run1''\<rparr>"
    "sample_json_load ''{run1'' = Inl JSONDecodeError"
    by (simp_all add: file_with_def sample_json_load_def)
  have d: "file_with True ''[]'' SAVED_JSON
        = Some \<lparr>readable = True, writable = True, content = ''[]''\<rparr>"
    "sample_json_load ''[]'' = Inr (JList [])" "\<not> isinstance_dict (JList [])"
    by (simp_all add: file_with_def sample_json_load_def isinstance_dict_def)
  from load_fail_soft [where fs = Map.empty and json_load = sample_json_load] a
  have a': "load_saved_analyses sample_json_load Map.empty = Inr []" by blast
  from load_fail_soft [where fs = "file_with False ''{run1}''" and json_load = sample_json_load
      and f = "\<lparr>readable = False, writable = True, content = ''{run1}''\<rparr>"] b
  have b': "load_saved_analyses sample_json_load (file_with False ''{run1}'') = Inr []"
    by simp
  from load_fail_soft [where fs = "file_with True ''{run1''" and json_load = sample_json_load
      and f = "\<lparr>readable = True, writable = True, content = ''{run1''\<rparr>"
      and e = JSONDecodeError] c
  have c': "load_saved_analyses sample_json_load (file_with True ''{run1'') = Inr []"
    by simp
  from load_fail_soft [where fs = "file_with True ''[]''" and json_load = sample_json_load
      and f = "\<lparr>readable = True, writable = True, content = ''[]''\<rparr>"
      and data = "JList []"] d
  have d': "load_saved_analyses sample_json_load (file_with True ''[]'') = Inr []"
    by simp
  from a a' b b' c c' d d' show ?thesis by blast
qed

lemma write_steps_absent:
  "fs SAVED_JSON = None \<Longrightarrow>
   write_steps json_dump flushes d fs =
     Inr (fs(SAVED_JSON \<mapsto> \<lparr>readable = True, writable = True, content = []\<rparr>)
          # map (\<lambda>n. fs(SAVED_JSON \<mapsto> \<lparr>readable = True, writable = True,
                                   content = take n (json_dump (JDict d))\<rparr>)) flushes
          @ [fs(SAVED_JSON \<mapsto>
               \<lparr>readable = True, writable = True, content = json_dump (JDict d)\<rparr>)])"
  by (simp add: write_steps_def open_write_def write_text_def)

lemma write_steps_present:
  "fs SAVED_JSON = Some f \<Longrightarrow>
   write_steps json_dump flushes d fs =
     (if writable f
      then Inr (fs(SAVED_JSON \<mapsto> f\<lparr>content := []\<rparr>)
                # map (\<lambda>n. fs(SAVED_JSON \<mapsto> f\<lparr>content := take n (json_dump (JDict d))\<rparr>))
                    flushes
                @ [fs(SAVED_JSON \<mapsto> f\<lparr>content := json_dump (JDict d)\<rparr>)])
      else Inl OSError)"
  by (simp add: write_steps_def open_write_def write_text_def)

lemma write_absent:
  "fs SAVED_JSON = None \<Longrightarrow>
   write_saved_analyses json_dump d fs =
     Inr (fs(SAVED_JSON \<mapsto>
            \<lparr>readable = True, writable = True, content = json_dump (JDict d)\<rparr>))"
  by (simp add: write_saved_analyses_def write_steps_absent)

lemma write_present:
  "fs SAVED_JSON = Some f \<Longrightarrow>
   write_saved_analyses json_dump d fs =
     (if writable f then Inr (fs(SAVED_JSON \<mapsto> f\<lparr>content := json_dump (JDict d)\<rparr>))
      else Inl OSError)"
  by (simp add: write_saved_analyses_def write_steps_present)

text \<open>
  The states of a write that returns: one file \<open>g\<close>, the target as opened, carries
  first no text, then the pieces, then the whole text.
\<close>

lemma write_steps_shape:
  assumes "write_saved_analyses json_dump d fs = Inr fs'"
  shows "\<exists>g. write_steps json_dump flushes d fs =
               Inr (fs(SAVED_JSON \<mapsto> g\<lparr>content := []\<rparr>)
                    # map (\<lambda>n. fs(SAVED_JSON \<mapsto> g\<lparr>content := take n (json_dump (JDict d))\<rparr>))
                        flushes
                    @ [fs'])
           \<and> fs' = fs(SAVED_JSON \<mapsto> g\<lparr>content := json_dump (JDict d)\<rparr>)
           \<and> (\<forall>f. fs SAVED_JSON = Some f \<longrightarrow> g = f)"
proof (cases "fs SAVED_JSON")
  case None
  let ?g = "\<lparr>readable = True, writable = True, content = []\<rparr>"
  from None assms have "fs' = fs(SAVED_JSON \<mapsto> ?g\<lparr>content := json_dump (JDict d)\<rparr>)"
    by (simp add: write_absent)
  with None show ?thesis
    by (intro exI [of _ ?g]) (simp add: write_steps_absent)
next
  case (Some f)
  with assms have "writable f" "fs' = fs(SAVED_JSON \<mapsto> f\<lparr>content := json_dump (JDict d)\<rparr>)"
    by (simp_all add: write_present split: if_splits)
  with Some show ?thesis
    by (intro exI [of _ f]) (simp add: write_steps_present)
qed

lemma load_file_with:
  "load_saved_analyses json_load (file_with r text) =
     (if r then
        (case json_load text of
           Inl e \<Rightarrow> Inr []
         | Inr data \<Rightarrow> Inr (if isinstance_dict data then dict_items data else []))
      else Inr [])"
proof -
  have "file_with r text SAVED_JSON = Some \<lparr>readable = r, writable = True, content = text\<rparr>"
    by (simp add: file_with_def)
  from load_present [where fs = "file_with r text", OF this] show ?thesis by simp
qed

lemma write_file_with:
  "write_saved_analyses json_dump d (file_with r text) = Inr (file_with r (json_dump (JDict d)))"
proof -
  have "file_with r text SAVED_JSON = Some \<lparr>readable = r, writable = True, content = text\<rparr>"
    by (simp add: file_with_def)
  from write_present [where fs = "file_with r text", OF this] show ?thesis
    by (simp add: file_with_def)
qed

lemma write_steps_file_with:
  "write_steps json_dump flushes d (file_with r text) =
     Inr (file_with r []
          # map (\<lambda>n. file_with r (take n (json_dump (JDict d)))) flushes
          @ [file_with r (json_dump (JDict d))])"
proof -
  have "file_with r text SAVED_JSON = Some \<lparr>readable = r, writable = True, content = text\<rparr>"
    by (simp add: file_with_def)
  from write_steps_present [where fs = "file_with r text", OF this] show ?thesis
    by (simp add: file_with_def)
qed

lemma dump_edited_doc: "sample_json_dump (JDict edited_doc) = ''{run1 checked}''"
  by (simp add: sample_json_dump_def edited_doc_def sample_doc_def record_json_def
      sample_record_def)

lemma dump_sample_doc: "sample_json_dump (JDict sample_doc) = ''{run1}''"
  by (simp add: sample_json_dump_def sample_doc_def)

text \<open>
  C2, as stated, has every save replace the document in one indivisible step. Saving the
  edited record over the file that holds the sample record, with the first three characters
  flushed before the rest, passes through a target that is empty and a target that holds
  \<open>{ru\<close>: neither is the old file or the new document, and a reader loading at either
  moment gets no entry at all.
\<close>

theorem write_not_atomic_counterexample:
  "\<not> atomic_write sample_json_dump [3] edited_doc (file_with True ''{run1}'')
   \<and> write_steps sample_json_dump [3] edited_doc (file_with True ''{run1}'')
       = Inr [file_with True [], file_with True ''{ru'', file_with True ''{run1 checked}'']
   \<and> load_saved_analyses sample_json_load (file_with True ''{run1}'') = Inr sample_doc
   \<and> load_saved_analyses sample_json_load (file_with True []) = Inr []
   \<and> load_saved_analyses sample_json_load (file_with True ''{ru'') = Inr []
   \<and> load_saved_analyses sample_json_load (file_with True ''{run1 checked}'') = Inr edited_doc"
proof -
  have steps: "write_steps sample_json_dump [3] edited_doc (file_with True ''{run1}'')
       = Inr [file_with True [], file_with True ''{ru'', file_with True ''{run1 checked}'']"
    by (simp add: write_steps_file_with dump_edited_doc)
  have "file_with True [] SAVED_JSON \<noteq> file_with True ''{run1}'' SAVED_JSON"
    "map_option content (file_with True [] SAVED_JSON) \<noteq> Some ''{run1 checked}''"
    by (simp_all add: file_with_def)
  then have na: "\<not> atomic_write sample_json_dump [3] edited_doc (file_with True ''{run1}'')"
    by (simp add: atomic_write_def steps dump_edited_doc)
  have l: "load_saved_analyses sample_json_load (file_with True ''{run1}'') = Inr sample_doc"
    "load_saved_analyses sample_json_load (file_with True []) = Inr []"
    "load_saved_analyses sample_json_load (file_with True ''{ru'') = Inr []"
    "load_saved_analyses sample_json_load (file_with True ''{run1 checked}'') = Inr edited_doc"
    by (simp_all add: load_file_with sample_json_load_def isinstance_dict_def dict_items_def)
  from na steps l show ?thesis by blast
qed

text \<open>
  C2, amended. A write that returns has gone through these file systems, whatever the
  moments \<open>flushes\<close> at which the buffer was emptied: first the target is empty (opened
  for writing, truncated where it is), then it holds the first characters of the new text,
  as many as had been flushed, and in the end, in the file system returned, the whole
  serialised document. No path other than the target changes in any of them, so no
  temporary location is used. When the parser rejects the empty text, a load from the
  first of them returns the empty mapping. When the target held some text before and the
  new text is not empty, the write is not atomic.
\<close>

theorem write_in_place:
  assumes "write_saved_analyses json_dump d fs = Inr fs'"
  shows "\<exists>opened partial.
           write_steps json_dump flushes d fs = Inr (opened # partial @ [fs'])
           \<and> map (\<lambda>s. map_option content (s SAVED_JSON)) (opened # partial @ [fs'])
               = map Some ([] # map (\<lambda>n. take n (json_dump (JDict d))) flushes
                             @ [json_dump (JDict d)])
           \<and> list_all (\<lambda>s. \<forall>p. p \<noteq> SAVED_JSON \<longrightarrow> s p = fs p) (opened # partial @ [fs'])
           \<and> (json_load [] = Inl e \<longrightarrow> load_saved_analyses json_load opened = Inr [])
           \<and> (fs SAVED_JSON = Some f \<and> content f \<noteq> [] \<and> json_dump (JDict d) \<noteq> [] \<longrightarrow>
                \<not> atomic_write json_dump flushes d fs)"
proof -
  let ?text = "json_dump (JDict d)"
  from write_steps_shape [OF assms, of flushes] obtain g where
    steps: "write_steps json_dump flushes d fs =
               Inr (fs(SAVED_JSON \<mapsto> g\<lparr>content := []\<rparr>)
                    # map (\<lambda>n. fs(SAVED_JSON \<mapsto> g\<lparr>content := take n ?text\<rparr>)) flushes
                    @ [fs'])"
    and last: "fs' = fs(SAVED_JSON \<mapsto> g\<lparr>content := ?text\<rparr>)"
    and same: "\<forall>f. fs SAVED_JSON = Some f \<longrightarrow> g = f"
    by blast
  let ?opened = "fs(SAVED_JSON \<mapsto> g\<lparr>content := []\<rparr>)"
  let ?partial = "map (\<lambda>n. fs(SAVED_JSON \<mapsto> g\<lparr>content := take n ?text\<rparr>)) flushes"
  have texts: "map (\<lambda>s. map_option content (s SAVED_JSON)) (?opened # ?partial @ [fs'])
               = map Some ([] # map (\<lambda>n. take n ?text) flushes @ [?text])"
    by (simp add: last o_def)
  have others: "list_all (\<lambda>s. \<forall>p. p \<noteq> SAVED_JSON \<longrightarrow> s p = fs p) (?opened # ?partial @ [fs'])"
    by (simp add: last list_all_iff)
  have empty: "json_load [] = Inl e \<longrightarrow> load_saved_analyses json_load ?opened = Inr []"
  proof
    assume "json_load [] = Inl e"
    moreover have "?opened SAVED_JSON = Some (g\<lparr>content := []\<rparr>)" by simp
    from load_present [where fs = ?opened, OF this]
    have "load_saved_analyses json_load ?opened =
        (if readable g then
           (case json_load [] of
              Inl e \<Rightarrow> Inr []
            | Inr data \<Rightarrow> Inr (if isinstance_dict data then dict_items data else []))
         else Inr [])"
      by simp
    ultimately show "load_saved_analyses json_load ?opened = Inr []" by simp
  qed
  have torn: "fs SAVED_JSON = Some f \<and> content f \<noteq> [] \<and> ?text \<noteq> [] \<longrightarrow>
                \<not> atomic_write json_dump flushes d fs"
  proof
    assume h: "fs SAVED_JSON = Some f \<and> content f \<noteq> [] \<and> ?text \<noteq> []"
    with same have g: "g = f" by simp
    have "content (f\<lparr>content := []\<rparr>) = []" by simp
    with h have "f\<lparr>content := []\<rparr> \<noteq> f" by metis
    with h g have "?opened SAVED_JSON \<noteq> fs SAVED_JSON"
      "map_option content (?opened SAVED_JSON) \<noteq> Some ?text"
      by auto
    then show "\<not> atomic_write json_dump flushes d fs"
      by (simp add: atomic_write_def steps)
  qed
  from steps texts others empty torn show ?thesis by blast
qed

theorem write_in_place_witness:
  "write_saved_analyses sample_json_dump edited_doc (file_with True ''{run1}'')
     = Inr (file_with True ''{run1 checked}'')
   \<and> write_steps sample_json_dump [3] edited_doc (file_with True ''{run1}'')
       = Inr [file_with True [], file_with True ''{ru'', file_with True ''{run1 checked}'']
   \<and> map (\<lambda>s. map_option content (s SAVED_JSON))
        [file_with True [], file_with True ''{ru'', file_with True ''{run1 checked}'']
       = [Some [], Some ''{ru'', Some ''{run1 checked}'']
   \<and> ''data/tmp'' \<noteq> SAVED_JSON
   \<and> file_with True ''{ru'' ''data/tmp'' = file_with True ''{run1}'' ''data/tmp''
   \<and> sample_json_load [] = Inl JSONDecodeError
   \<and> load_saved_analyses sample_json_load (file_with True []) = Inr []
   \<and> \<not> atomic_write sample_json_dump [3] edited_doc (file_with True ''{run1}'')"
proof -
  let ?f = "\<lparr>readable = True, writable = True, content = ''{run1}''\<rparr>"
  have f: "file_with True ''{run1}'' SAVED_JSON = Some ?f \<and> content ?f \<noteq> []
      \<and> sample_json_dump (JDict edited_doc) \<noteq> []"
    by (simp add: file_with_def dump_edited_doc)
  have w: "write_saved_analyses sample_json_dump edited_doc (file_with True ''{run1}'')
     = Inr (file_with True ''{run1 checked}'')"
    by (simp add: write_file_with dump_edited_doc)
  have n: "''data/tmp'' \<noteq> SAVED_JSON"
    by (simp add: SAVED_JSON_def DATA_DIR_def)
  have e: "sample_json_load [] = Inl JSONDecodeError"
    by (simp add: sample_json_load_def)
  have steps: "write_steps sample_json_dump [3] edited_doc (file_with True ''{run1}'')
       = Inr [file_with True [], file_with True ''{ru'', file_with True ''{run1 checked}'']"
    by (simp add: write_steps_file_with dump_edited_doc)
  from write_in_place [OF w, where flushes = "[3]" and json_load = sample_json_load
      and e = JSONDecodeError and f = ?f]
  obtain opened partial where
    o: "write_steps sample_json_dump [3] edited_doc (file_with True ''{run1}'')
          = Inr (opened # partial @ [file_with True ''{run1 checked}''])"
       "map (\<lambda>s. map_option content (s SAVED_JSON))
           (opened # partial @ [file_with True ''{run1 checked}''])
          = map Some ([] # map (\<lambda>n. take n (sample_json_dump (JDict edited_doc))) [3]
                        @ [sample_json_dump (JDict edited_doc)])"
       "list_all (\<lambda>s. \<forall>p. p \<noteq> SAVED_JSON \<longrightarrow> s p = file_with True ''{run1}'' p)
           (opened # partial @ [file_with True ''{run1 checked}''])"
       "sample_json_load [] = Inl JSONDecodeError \<longrightarrow>
          load_saved_analyses sample_json_load opened = Inr []"
       "file_with True ''{run1}'' SAVED_JSON = Some ?f \<and> content ?f \<noteq> []
          \<and> sample_json_dump (JDict edited_doc) \<noteq> [] \<longrightarrow>
          \<not> atomic_write sample_json_dump [3] edited_doc (file_with True ''{run1}'')"
    by blast
  from o(1) steps have shape: "opened = file_with True []" "partial = [file_with True ''{ru'']"
    by simp_all
  from o(2) have texts: "map (\<lambda>s. map_option content (s SAVED_JSON))
        [file_with True [], file_with True ''{ru'', file_with True ''{run1 checked}'']
       = [Some [], Some ''{ru'', Some ''{run1 checked}'']"
    by (simp add: shape dump_edited_doc)
  from o(3) n have other: "file_with True ''{ru'' ''data/tmp'' = file_with True ''{run1}'' ''data/tmp''"
    by (simp add: shape)
  from o(4) e have l: "load_saved_analyses sample_json_load (file_with True []) = Inr []"
    by (simp add: shape)
  from o(5) f have na: "\<not> atomic_write sample_json_dump [3] edited_doc (file_with True ''{run1}'')"
    by blast
  from w steps texts n other e l na show ?thesis by blast
qed

lemma load_after_write:
  assumes "readable_or_absent fs SAVED_JSON"
      and "json_load (json_dump (JDict d)) = Inr (JDict d)"
      and "write_saved_analyses json_dump d fs = Inr fs'"
  shows "load_saved_analyses json_load fs' = Inr d"
proof (cases "fs SAVED_JSON")
  case None
  with assms(3) have "fs' SAVED_JSON =
      Some \<lparr>readable = True, writable = True, content = json_dump (JDict d)\<rparr>"
    by (auto simp: write_absent)
  from load_present [where fs = fs', OF this] assms(2) show ?thesis
    by (simp add: isinstance_dict_def dict_items_def)
next
  case (Some f)
  with assms(1) have r: "readable f" by (simp add: readable_or_absent_def)
  from Some assms(3) have "fs' SAVED_JSON = Some (f\<lparr>content := json_dump (JDict d)\<rparr>)"
    by (auto simp: write_present split: if_splits)
  from load_present [where fs = fs', OF this] assms(2) r show ?thesis
    by (simp add: isinstance_dict_def dict_items_def)
qed

text \<open>
  C6, as stated, holds for every store. On a target that can be written but not read, a
  \<open>save\<close> of the sample record returns, and the load that follows returns the empty
  mapping, with no entry for the record's name.
\<close>

theorem save_unreadable_counterexample:
  "save sample_json_load sample_json_dump sample_record (file_with False ''{}'')
     = Inr (file_with False ''{run1}'')
   \<and> load_saved_analyses sample_json_load (file_with False ''{run1}'') = Inr []
   \<and> map_of ([] :: document) (rec_name sample_record) = None"
proof -
  have u: "AList.update (rec_name sample_record) (record_json sample_record) [] = sample_doc"
    by (simp add: sample_doc_def sample_record_def)
  have l: "load_saved_analyses sample_json_load (file_with False t) = Inr []" for t
    by (simp add: load_file_with)
  have "save sample_json_load sample_json_dump sample_record (file_with False ''{}'')
     = Inr (file_with False ''{run1}'')"
    by (simp only: save_def l bind_result_Inr u write_file_with dump_sample_doc)
  with l show ?thesis by simp
qed

text \<open>
  C6, amended. Let a \<open>save\<close> of a record return, on a store whose load gave \<open>doc\<close>.
  When the target was absent or readable, and the parser reads back what the serialiser
  wrote for the new document, the load that follows returns \<open>doc\<close> with the record
  upserted: its entry for the record's name is the record, field by field, and every other
  entry is as in \<open>doc\<close>. When the target was there and not readable, \<open>doc\<close> was empty
  and the load that follows returns the empty mapping again.
\<close>

theorem save_load_round_trip:
  assumes "save json_load json_dump r fs = Inr fs'"
      and "load_saved_analyses json_load fs = Inr doc"
  shows "(readable_or_absent fs SAVED_JSON
            \<and> json_load (json_dump (JDict (AList.update (rec_name r) (record_json r) doc)))
                = Inr (JDict (AList.update (rec_name r) (record_json r) doc)) \<longrightarrow>
          (\<exists>doc'. load_saved_analyses json_load fs' = Inr doc'
             \<and> doc' = AList.update (rec_name r) (record_json r) doc
             \<and> map_of doc' (rec_name r) = Some (record_json r)
             \<and> (k \<noteq> rec_name r \<longrightarrow> map_of doc' k = map_of doc k)))
       \<and> (\<not> readable_or_absent fs SAVED_JSON \<longrightarrow>
            doc = [] \<and> load_saved_analyses json_load fs' = Inr [])"
proof (intro conjI impI)
  from assms
  have w: "write_saved_analyses json_dump (AList.update (rec_name r) (record_json r) doc) fs
          = Inr fs'"
    by (simp add: save_def)
  {
    assume h: "readable_or_absent fs SAVED_JSON
            \<and> json_load (json_dump (JDict (AList.update (rec_name r) (record_json r) doc)))
                = Inr (JDict (AList.update (rec_name r) (record_json r) doc))"
    with w have "load_saved_analyses json_load fs'
          = Inr (AList.update (rec_name r) (record_json r) doc)"
      by (blast intro: load_after_write)
    then show "\<exists>doc'. load_saved_analyses json_load fs' = Inr doc'
             \<and> doc' = AList.update (rec_name r) (record_json r) doc
             \<and> map_of doc' (rec_name r) = Some (record_json r)
             \<and> (k \<noteq> rec_name r \<longrightarrow> map_of doc' k = map_of doc k)"
      by (simp add: update_conv')
  }
  {
    assume "\<not> readable_or_absent fs SAVED_JSON"
    then obtain f where f: "fs SAVED_JSON = Some f" "\<not> readable f"
      by (auto simp: readable_or_absent_def split: option.splits)
    from f assms(2) show "doc = []"
      by (simp add: load_present)
    from f w have "fs' SAVED_JSON
        = Some (f\<lparr>content := json_dump (JDict (AList.update (rec_name r) (record_json r) doc))\<rparr>)"
      by (auto simp: write_present split: if_splits)
    from load_present [where fs = fs', OF this] f(2)
    show "load_saved_analyses json_load fs' = Inr []"
      by simp
  }
qed

lemma load_nonempty_readable:
  assumes "load_saved_analyses json_load fs = Inr doc" and "doc \<noteq> []"
  shows "\<exists>f. fs SAVED_JSON = Some f \<and> readable f"
proof (cases "fs SAVED_JSON")
  case None
  with assms show ?thesis by (simp add: load_absent)
next
  case (Some f)
  with assms show ?thesis by (auto simp: load_present split: if_splits)
qed

text \<open>
  C7. With \<open>doc\<close> the loaded document: when \<open>n\<close> has no entry, \<open>delete n\<close> returns
  the file system it was given, unchanged, and no exception; when \<open>n\<close> has an entry and
  the delete returns, the document loaded afterwards has no entry for \<open>n\<close> and every
  other entry as before.
\<close>

theorem delete_entry:
  assumes "load_saved_analyses json_load fs = Inr doc"
  shows "(map_of doc n = None \<longrightarrow> delete json_load json_dump n fs = Inr fs)
       \<and> (map_of doc n \<noteq> None \<and> delete json_load json_dump n fs = Inr fs'
           \<and> json_load (json_dump (JDict (AList.delete n doc)))
                = Inr (JDict (AList.delete n doc)) \<longrightarrow>
            (\<exists>doc'. load_saved_analyses json_load fs' = Inr doc'
               \<and> map_of doc' n = None
               \<and> (k \<noteq> n \<longrightarrow> map_of doc' k = map_of doc k)))"
proof (intro conjI impI)
  assume "map_of doc n = None"
  with assms show "delete json_load json_dump n fs = Inr fs"
    by (simp add: delete_def)
next
  assume h: "map_of doc n \<noteq> None \<and> delete json_load json_dump n fs = Inr fs'
           \<and> json_load (json_dump (JDict (AList.delete n doc)))
                = Inr (JDict (AList.delete n doc))"
  then have "doc \<noteq> []" by auto
  with assms obtain f where "fs SAVED_JSON = Some f" "readable f"
    using load_nonempty_readable by blast
  then have ra: "readable_or_absent fs SAVED_JSON"
    by (simp add: readable_or_absent_def)
  from h assms have "write_saved_analyses json_dump (AList.delete n doc) fs = Inr fs'"
    by (auto simp: delete_def)
  with ra h have "load_saved_analyses json_load fs' = Inr (AList.delete n doc)"
    by (blast intro: load_after_write)
  then show "\<exists>doc'. load_saved_analyses json_load fs' = Inr doc'
               \<and> map_of doc' n = None
               \<and> (k \<noteq> n \<longrightarrow> map_of doc' k = map_of doc k)"
    by (simp add: delete_conv')
qed

theorem save_load_round_trip_witness:
  "save sample_json_load sample_json_dump sample_record Map.empty
       = Inr (file_with True ''{run1}'')
   \<and> load_saved_analyses sample_json_load Map.empty = Inr []
   \<and> readable_or_absent Map.empty SAVED_JSON
   \<and> load_saved_analyses sample_json_load (file_with True ''{run1}'') = Inr sample_doc
   \<and> map_of sample_doc ''run1'' = Some (record_json sample_record)
   \<and> save sample_json_load sample_json_dump (sample_record\<lparr>rec_note := ''checked''\<rparr>)
         (file_with True ''{run1}'')
       = Inr (file_with True ''{run1 checked}'')
   \<and> readable_or_absent (file_with True ''{run1}'') SAVED_JSON
   \<and> load_saved_analyses sample_json_load (file_with True ''{run1 checked}'') = Inr edited_doc
   \<and> map_of edited_doc ''run1'' = Some (record_json (sample_record\<lparr>rec_note := ''checked''\<rparr>))
   \<and> map_of edited_doc ''run2'' = map_of sample_doc ''run2''
   \<and> save sample_json_load sample_json_dump sample_record (file_with False ''{}'')
       = Inr (file_with False ''{run1}'')
   \<and> \<not> readable_or_absent (file_with False ''{}'') SAVED_JSON
   \<and> load_saved_analyses sample_json_load (file_with False ''{}'') = Inr []
   \<and> load_saved_analyses sample_json_load (file_with False ''{run1}'') = Inr []"
proof -
  let ?edited = "sample_record\<lparr>rec_note := ''checked''\<rparr>"
  have n: "rec_name sample_record = ''run1''" "rec_name ?edited = ''run1''"
    by (simp_all add: sample_record_def)
  have u1: "AList.update (rec_name sample_record) (record_json sample_record) [] = sample_doc"
    by (simp add: sample_doc_def sample_record_def)
  have u2: "AList.update (rec_name ?edited) (record_json ?edited) sample_doc = edited_doc"
    by (simp add: sample_doc_def edited_doc_def sample_record_def)
  have l0: "load_saved_analyses sample_json_load Map.empty = Inr []"
    by (simp add: load_absent)
  have l1: "load_saved_analyses sample_json_load (file_with True ''{run1}'') = Inr sample_doc"
    by (simp add: load_file_with sample_json_load_def isinstance_dict_def dict_items_def)
  have l2: "load_saved_analyses sample_json_load (file_with False ''{}'') = Inr []"
    by (simp add: load_file_with)
  have r0: "readable_or_absent Map.empty SAVED_JSON"
    "readable_or_absent (file_with True ''{run1}'') SAVED_JSON"
    "\<not> readable_or_absent (file_with False ''{}'') SAVED_JSON"
    by (simp_all add: readable_or_absent_def file_with_def)
  have c1: "sample_json_load (sample_json_dump
         (JDict (AList.update (rec_name sample_record) (record_json sample_record) [])))
       = Inr (JDict (AList.update (rec_name sample_record) (record_json sample_record) []))"
    by (simp only: u1 dump_sample_doc) (simp add: sample_json_load_def)
  have c2: "sample_json_load (sample_json_dump
         (JDict (AList.update (rec_name ?edited) (record_json ?edited) sample_doc)))
       = Inr (JDict (AList.update (rec_name ?edited) (record_json ?edited) sample_doc))"
    by (simp only: u2 dump_edited_doc) (simp add: sample_json_load_def)
  have s0: "save sample_json_load sample_json_dump sample_record Map.empty
       = Inr (file_with True ''{run1}'')"
    by (simp only: save_def l0 bind_result_Inr u1)
       (simp add: write_absent dump_sample_doc file_with_def)
  have s1: "save sample_json_load sample_json_dump ?edited (file_with True ''{run1}'')
       = Inr (file_with True ''{run1 checked}'')"
    by (simp only: save_def l1 bind_result_Inr u2 write_file_with dump_edited_doc)
  have s2: "save sample_json_load sample_json_dump sample_record (file_with False ''{}'')
     = Inr (file_with False ''{run1}'')"
    by (simp only: save_def l2 bind_result_Inr u1 write_file_with dump_sample_doc)
  have k: "''run2'' \<noteq> rec_name ?edited"
    by (simp add: sample_record_def)
  from save_load_round_trip [OF s0 l0, where k = "''run2''"] r0(1) c1
  have a: "load_saved_analyses sample_json_load (file_with True ''{run1}'')
          = Inr (AList.update (rec_name sample_record) (record_json sample_record) [])"
    "map_of (AList.update (rec_name sample_record) (record_json sample_record) [])
       (rec_name sample_record) = Some (record_json sample_record)"
    by blast+
  from save_load_round_trip [OF s1 l1, where k = "''run2''"] r0(2) c2 k
  have b: "load_saved_analyses sample_json_load (file_with True ''{run1 checked}'')
          = Inr (AList.update (rec_name ?edited) (record_json ?edited) sample_doc)"
    "map_of (AList.update (rec_name ?edited) (record_json ?edited) sample_doc)
       (rec_name ?edited) = Some (record_json ?edited)"
    "map_of (AList.update (rec_name ?edited) (record_json ?edited) sample_doc) ''run2''
       = map_of sample_doc ''run2''"
    by blast+
  from save_load_round_trip [OF s2 l2, where k = "''run2''"] r0(3)
  have c: "load_saved_analyses sample_json_load (file_with False ''{run1}'') = Inr []"
    by blast
  from a(2) [unfolded u1]
  have a': "map_of sample_doc ''run1'' = Some (record_json sample_record)"
    by (simp only: n)
  from b [unfolded u2]
  have b': "load_saved_analyses sample_json_load (file_with True ''{run1 checked}'')
          = Inr edited_doc"
    "map_of edited_doc ''run1'' = Some (record_json ?edited)"
    "map_of edited_doc ''run2'' = map_of sample_doc ''run2''"
    by (simp_all only: n)
  from s0 l0 r0 l1 a' s1 b' s2 l2 c show ?thesis by blast
qed

theorem delete_entry_witness:
  "load_saved_analyses sample_json_load (file_with True ''{run1}'') = Inr sample_doc
   \<and> map_of sample_doc ''nonexistent'' = None
   \<and> delete sample_json_load sample_json_dump ''nonexistent'' (file_with True ''{run1}'')
       = Inr (file_with True ''{run1}'')
   \<and> map_of sample_doc ''run1'' \<noteq> None
   \<and> delete sample_json_load sample_json_dump ''run1'' (file_with True ''{run1}'')
       = Inr (file_with True ''{}'')
   \<and> sample_json_load (sample_json_dump (JDict (AList.delete ''run1'' sample_doc)))
       = Inr (JDict (AList.delete ''run1'' sample_doc))
   \<and> load_saved_analyses sample_json_load (file_with True ''{}'') = Inr []
   \<and> ''nonexistent'' \<noteq> ''run1''
   \<and> map_of [] ''nonexistent'' = map_of sample_doc ''nonexistent''"
proof -
  let ?f = "\<lparr>readable = True, writable = True, content = ''{run1}''\<rparr>"
  have f: "file_with True ''{run1}'' SAVED_JSON = Some ?f"
    by (simp add: file_with_def)
  have l: "load_saved_analyses sample_json_load (file_with True ''{run1}'') = Inr sample_doc"
    by (simp add: load_present [where fs = "file_with True ''{run1}''", OF f]
        sample_json_load_def isinstance_dict_def dict_items_def)
  have m: "map_of sample_doc ''nonexistent'' = None" "map_of sample_doc ''run1'' \<noteq> None"
    by (simp_all add: sample_doc_def)
  have e: "AList.delete ''run1'' sample_doc = []"
    by (simp add: sample_doc_def)
  have c: "sample_json_load (sample_json_dump (JDict (AList.delete ''run1'' sample_doc)))
       = Inr (JDict (AList.delete ''run1'' sample_doc))"
    by (simp add: e sample_json_dump_def sample_json_load_def)
  have d: "delete sample_json_load sample_json_dump ''run1'' (file_with True ''{run1}'')
       = Inr (file_with True ''{}'')"
    by (simp add: delete_def l m(2) e
        write_present [where fs = "file_with True ''{run1}''", OF f] sample_json_dump_def)
       (simp add: file_with_def)
  have k: "''nonexistent'' \<noteq> ''run1''" by simp
  from delete_entry [OF l, where n = "''nonexistent''" and json_dump = sample_json_dump] m(1)
  have a: "delete sample_json_load sample_json_dump ''nonexistent'' (file_with True ''{run1}'')
       = Inr (file_with True ''{run1}'')"
    by blast
  from delete_entry [OF l, where n = "''run1''" and json_dump = sample_json_dump
      and fs' = "file_with True ''{}''" and k = "''nonexistent''"] m(2) d c k
  obtain doc' where
    "load_saved_analyses sample_json_load (file_with True ''{}'') = Inr doc'"
    "map_of doc' ''nonexistent'' = map_of sample_doc ''nonexistent''"
    by blast
  moreover have "file_with True ''{}'' SAVED_JSON
      = Some \<lparr>readable = True, writable = True, content = ''{}''\<rparr>"
    by (simp add: file_with_def)
  from load_present [where fs = "file_with True ''{}''", OF this]
  have "load_saved_analyses sample_json_load (file_with True ''{}'') = Inr []"
    by (simp add: sample_json_load_def isinstance_dict_def dict_items_def)
  ultimately have b: "load_saved_analyses sample_json_load (file_with True ''{}'') = Inr []"
    "map_of [] ''nonexistent'' = map_of sample_doc ''nonexistent''"
    by simp_all
  from l m a d c b k show ?thesis by blast
qed

end
